theory Spec2Isabelle
  imports Complex_Main "HOL-Library.Word"
begin

section \<open>Strings\<close>

text \<open>
  A JavaScript string is a sequence of UTF-16 code units, so the model uses lists of
  16-bit words. \<open>ustr\<close> turns an ASCII literal of the theory into such a string.
\<close>

type_synonym ustring = "16 word list"

definition ustr :: "string \<Rightarrow> ustring" where
  "ustr s = map (\<lambda>c. of_char c) s"

text \<open>
  The line terminators of ECMAScript: LF, CR, LS and PS. In a regular expression
  without the \<open>s\<close> flag the dot matches every code unit but these, and with the \<open>m\<close>
  flag \<open>^\<close> holds after one of them and \<open>$\<close> in front of one of them.
\<close>

definition isLineTerminator :: "16 word \<Rightarrow> bool" where
  "isLineTerminator c \<longleftrightarrow> c = 0x0A \<or> c = 0x0D \<or> c = 0x2028 \<or> c = 0x2029"

section \<open>toc-manager.ts: the version pattern\<close>

text \<open>
  \<^verbatim>\<open>private readonly tocPattern = /^## Version: (.+)$/m;\<close>

  \<open>versionPrefix\<close> is the literal part of the pattern. \<open>matchAt seen rest\<close> tries
  the pattern at the position between \<open>seen\<close> and \<open>rest\<close>: \<open>^\<close> wants the start of the
  input or a line terminator as the last code unit seen, the literal must follow, the greedy \<open>(.+)\<close>
  takes every code unit up to the next line terminator (it cannot take less, since
  \<open>$\<close> then wants a line terminator or the end of the input), and it must take at
  least one. The result is the text of the capture group.
\<close>

definition versionPrefix :: ustring where
  "versionPrefix = ustr ''## Version: ''"

definition matchAt :: "ustring \<Rightarrow> ustring \<Rightarrow> ustring option" where
  "matchAt seen rest =
     (if (seen = [] \<or> isLineTerminator (last seen))
         \<and> take (length versionPrefix) rest = versionPrefix
      then (let v = takeWhile (\<lambda>c. \<not> isLineTerminator c) (drop (length versionPrefix) rest)
            in if v = [] then None else Some v)
      else None)"

text \<open>
  The match object of \<open>String.prototype.match\<close> for a pattern without the \<open>g\<close> flag:
  the index of the match, the matched text (\<open>match[0]\<close>) and the capture group
  (\<open>match[1]\<close>). The search tries the positions from left to right and stops at the
  first one where the pattern matches.
\<close>

record RegExpMatch =
  index :: nat
  matched :: ustring
  group1 :: ustring

fun execFrom :: "ustring \<Rightarrow> ustring \<Rightarrow> RegExpMatch option" where
  "execFrom seen [] = None"
| "execFrom seen (c # cs) =
     (case matchAt seen (c # cs) of
        Some v \<Rightarrow> Some \<lparr>index = length seen, matched = versionPrefix @ v, group1 = v\<rparr>
      | None \<Rightarrow> execFrom (seen @ [c]) cs)"

definition tocPattern_match :: "ustring \<Rightarrow> RegExpMatch option" where
  "tocPattern_match content = execFrom [] content"

text \<open>
  \<open>GetSubstitution\<close> of ECMAScript, which \<open>String.prototype.replace\<close> applies to a
  replacement given as a string: \<open>$$\<close> is a dollar sign, \<open>$&\<close> the matched text,
  \<open>$`\<close> the text in front of the match, \<open>$'\<close> the text after it, \<open>$n\<close> and \<open>$nn\<close> a
  capture group (a two-digit reference beyond the number of groups is read as a
  one-digit reference followed by a digit), and any other dollar sign stands for
  itself. The pattern has no named group, so \<open>$<\<close> is literal.
\<close>

definition isDigit :: "16 word \<Rightarrow> bool" where
  "isDigit c \<longleftrightarrow> 0x30 \<le> c \<and> c \<le> 0x39"

definition digitValue :: "16 word \<Rightarrow> nat" where
  "digitValue c = unat c - 48"

definition captureRef :: "ustring list \<Rightarrow> nat \<Rightarrow> ustring \<Rightarrow> ustring" where
  "captureRef captures i ref =
     (if 1 \<le> i \<and> i \<le> length captures then captures ! (i - 1) else ref)"

fun getSubstitution ::
  "ustring \<Rightarrow> ustring \<Rightarrow> nat \<Rightarrow> ustring list \<Rightarrow> ustring \<Rightarrow> ustring" where
  "getSubstitution m str pos captures [] = []"
| "getSubstitution m str pos captures [c] = [c]"
| "getSubstitution m str pos captures (c # d # t) =
     (if c \<noteq> 0x24 then c # getSubstitution m str pos captures (d # t)
      else if d = 0x24 then 0x24 # getSubstitution m str pos captures t
      else if d = 0x26 then m @ getSubstitution m str pos captures t
      else if d = 0x60 then take pos str @ getSubstitution m str pos captures t
      else if d = 0x27 then drop (pos + length m) str @ getSubstitution m str pos captures t
      else if isDigit d then
        (case t of
           e # t' \<Rightarrow>
             if isDigit e \<and> 10 * digitValue d + digitValue e \<le> length captures
             then captureRef captures (10 * digitValue d + digitValue e) [c, d, e]
                    @ getSubstitution m str pos captures t'
             else captureRef captures (digitValue d) [c, d]
                    @ getSubstitution m str pos captures t
         | [] \<Rightarrow> captureRef captures (digitValue d) [c, d])
      else c # getSubstitution m str pos captures (d # t))"

text \<open>
  \<^verbatim>\<open>
  public updateVersionInContent(content: string, newVersion: string): string {
      return content.replace(this.tocPattern, `## Version: ${newVersion}`);
  }
  \<close>
  The pattern has no \<open>g\<close> flag: only the first match is replaced, and a content
  without a match is returned as it is.
\<close>

definition updateVersionInContent :: "ustring \<Rightarrow> ustring \<Rightarrow> ustring" where
  "updateVersionInContent content newVersion =
     (case tocPattern_match content of
        None \<Rightarrow> content
      | Some r \<Rightarrow>
          take (index r) content
          @ getSubstitution (matched r) content (index r) [group1 r]
              (versionPrefix @ newVersion)
          @ drop (index r + length (matched r)) content)"

text \<open>
  The words of the specification, for comparison: a line matches
  \<open>## Version: <anything>\<close> at offset \<open>i\<close> when \<open>i\<close> is the start of a line, the
  literal stands there and at least one more code unit of the same line follows.
  \<open>firstVersionLine\<close> is the offset of the first such line, \<open>lineRest\<close> what is left
  of the content from the end of that line on (its line terminator included).
\<close>

definition versionLineAt :: "ustring \<Rightarrow> nat \<Rightarrow> bool" where
  "versionLineAt content i \<longleftrightarrow>
     (i = 0 \<or> isLineTerminator (content ! (i - 1)))
     \<and> take (length versionPrefix) (drop i content) = versionPrefix
     \<and> i + length versionPrefix < length content
     \<and> \<not> isLineTerminator (content ! (i + length versionPrefix))"

definition firstVersionLine :: "ustring \<Rightarrow> nat option" where
  "firstVersionLine content = find (versionLineAt content) [0..<length content]"

definition lineValue :: "ustring \<Rightarrow> nat \<Rightarrow> ustring" where
  "lineValue content i =
     takeWhile (\<lambda>c. \<not> isLineTerminator c) (drop (i + length versionPrefix) content)"

definition lineRest :: "ustring \<Rightarrow> nat \<Rightarrow> ustring" where
  "lineRest content i =
     dropWhile (\<lambda>c. \<not> isLineTerminator c) (drop (i + length versionPrefix) content)"

text \<open>
  A version text as the program passes it to \<open>updateVersionInContent\<close>: the command
  line accepts \<^verbatim>\<open>^\d+\.\d+\.\d+$\<close> only and the version calculator formats a
  semantic version, so it is never empty, stays on one line and has no dollar sign
  (which \<open>GetSubstitution\<close> would read as a replacement pattern).
\<close>

definition plainVersionText :: "ustring \<Rightarrow> bool" where
  "plainVersionText v \<longleftrightarrow> v \<noteq> [] \<and> (\<forall>c \<in> set v. \<not> isLineTerminator c \<and> c \<noteq> 0x24)"

definition sampleToc :: ustring where
  "sampleToc = ustr ''## Title: X'' @ [0x0D, 0x0A] @ ustr ''## Version: 1.2.3'' @ [0x0D, 0x0A]
     @ ustr ''## Version: 9.9.9'' @ [0x0A]"

definition emptyVersionToc :: ustring where
  "emptyVersionToc = ustr ''## Title: X'' @ [0x0A] @ ustr ''## Version: '' @ [0x0A]"

subsection \<open>Properties of the pattern and of the rewrite\<close>


lemma length_versionPrefix: "length versionPrefix = 12"
  by (simp add: versionPrefix_def ustr_def)

lemma versionPrefix_no_terminator: "c \<in> set versionPrefix \<Longrightarrow> \<not> isLineTerminator c"
  by (auto simp: versionPrefix_def ustr_def isLineTerminator_def)

lemma versionPrefix_no_dollar: "0x24 \<notin> set versionPrefix"
  by (simp add: versionPrefix_def ustr_def)

lemma takeWhile_nonempty_iff: "takeWhile P xs \<noteq> [] \<longleftrightarrow> xs \<noteq> [] \<and> P (hd xs)"
  by (cases xs) auto

lemma matchAt_versionLineAt:
  "matchAt seen rest =
     (if versionLineAt (seen @ rest) (length seen)
      then Some (lineValue (seen @ rest) (length seen)) else None)"
proof -
  have start: "(seen = [] \<or> isLineTerminator (last seen)) \<longleftrightarrow>
      (length seen = 0 \<or> isLineTerminator ((seen @ rest) ! (length seen - 1)))"
    by (cases seen rule: rev_cases) (auto simp: nth_append)
  have more: "takeWhile (\<lambda>c. \<not> isLineTerminator c) (drop (length versionPrefix) rest) \<noteq> [] \<longleftrightarrow>
      length seen + length versionPrefix < length (seen @ rest)
      \<and> \<not> isLineTerminator ((seen @ rest) ! (length seen + length versionPrefix))"
    by (auto simp: takeWhile_nonempty_iff hd_drop_conv_nth nth_append)
  show ?thesis
    unfolding matchAt_def versionLineAt_def lineValue_def Let_def
    using start more by auto
qed

lemma execFrom_find:
  "execFrom seen rest =
     map_option (\<lambda>i. \<lparr>index = i, matched = versionPrefix @ lineValue (seen @ rest) i,
                      group1 = lineValue (seen @ rest) i\<rparr>)
       (find (versionLineAt (seen @ rest)) [length seen..<length (seen @ rest)])"
proof (induction rest arbitrary: seen)
  case Nil
  show ?case by simp
next
  case (Cons c cs)
  have upt: "[length seen..<length (seen @ c # cs)]
      = length seen # [length (seen @ [c])..<length ((seen @ [c]) @ cs)]"
    by (subst upt_rec) simp
  show ?case
    using Cons.IH [of "seen @ [c]"]
    unfolding execFrom.simps matchAt_versionLineAt upt
    by simp
qed

lemma tocPattern_match_first:
  "tocPattern_match content =
     map_option (\<lambda>i. \<lparr>index = i, matched = versionPrefix @ lineValue content i,
                      group1 = lineValue content i\<rparr>) (firstVersionLine content)"
  using execFrom_find [of "[]" content]
  by (simp add: tocPattern_match_def firstVersionLine_def)

lemma getSubstitution_plain:
  "0x24 \<notin> set t \<Longrightarrow> getSubstitution m str pos captures t = t"
  by (induction m str pos captures t rule: getSubstitution.induct) auto

lemma updateVersionInContent_spec:
  assumes "0x24 \<notin> set V"
  shows "updateVersionInContent content V =
    (case firstVersionLine content of None \<Rightarrow> content
     | Some i \<Rightarrow> take i content @ versionPrefix @ V @ lineRest content i)"
proof -
  have sub: "getSubstitution m str pos captures (versionPrefix @ V) = versionPrefix @ V"
    for m str pos captures
    using assms versionPrefix_no_dollar by (intro getSubstitution_plain) simp
  have rest: "drop (i + length (versionPrefix @ lineValue content i)) content = lineRest content i" for i
    by (simp add: lineValue_def lineRest_def dropWhile_eq_drop add.assoc [symmetric] add.commute)
  show ?thesis
    unfolding updateVersionInContent_def tocPattern_match_first
    by (cases "firstVersionLine content") (simp_all add: sub rest del: length_append)
qed



lemma firstVersionLine_Some_iff:
  "firstVersionLine content = Some i \<longleftrightarrow>
     versionLineAt content i \<and> (\<forall>j<i. \<not> versionLineAt content j)"
proof -
  have "versionLineAt content i \<Longrightarrow> i < length content"
    by (simp add: versionLineAt_def)
  then show ?thesis
    unfolding firstVersionLine_def find_Some_iff by auto
qed

lemma versionLineAt_before:
  assumes same: "take i c = take i c'" and len: "i \<le> length c" "i \<le> length c'"
    and start: "0 < i \<Longrightarrow> isLineTerminator (c ! (i - 1))" and j: "j < i"
  shows "versionLineAt c j = versionLineAt c' j"
proof (cases "j + length versionPrefix < i")
  case True
  have nth: "k < i \<Longrightarrow> c ! k = c' ! k" for k
    using same by (metis nth_take)
  have "take (length versionPrefix) (drop j c) = take (length versionPrefix) (drop j (take i c))"
    using True by (simp add: drop_take min_def)
  also have "\<dots> = take (length versionPrefix) (drop j c')"
    using True by (simp add: same drop_take min_def)
  finally have pre: "take (length versionPrefix) (drop j c) = take (length versionPrefix) (drop j c')" .
  show ?thesis
    unfolding versionLineAt_def using True len j pre nth [of "j - 1"] nth [of "j + length versionPrefix"]
    by auto
next
  case False
  have no: "\<not> versionLineAt d j" if d: "take i d = take i c" "i \<le> length d" for d
  proof
    assume v: "versionLineAt d j"
    then have pre: "take (length versionPrefix) (drop j d) = versionPrefix"
      and long: "j + length versionPrefix < length d"
      by (simp_all add: versionLineAt_def)
    let ?k = "i - 1 - j"
    have k: "?k < length versionPrefix" using False j by simp
    have "versionPrefix ! ?k = take (length versionPrefix) (drop j d) ! ?k"
      by (simp add: pre)
    also have "\<dots> = d ! (i - 1)"
      using k j long by simp
    also have "\<dots> = c ! (i - 1)"
      using d j by (metis diff_less less_nat_zero_code not_gr_zero nth_take zero_less_one)
    finally have "isLineTerminator (versionPrefix ! ?k)"
      using start j by simp
    then show False
      using versionPrefix_no_terminator k nth_mem by blast
  qed
  show ?thesis using no [of c] no [of c'] same len by simp
qed

lemma rewritten_line:
  assumes v: "versionLineAt content i" and V: "V \<noteq> []" "\<forall>c \<in> set V. \<not> isLineTerminator c"
  defines "c' \<equiv> take i content @ versionPrefix @ V @ lineRest content i"
  shows "versionLineAt c' i" and "lineRest c' i = lineRest content i" and "take i c' = take i content"
proof -
  have i: "i < length content" using v by (simp add: versionLineAt_def)
  then have li: "length (take i content) = i" by simp
  show t: "take i c' = take i content"
    unfolding c'_def using li by (metis append_eq_conv_conj)
  have d: "drop i c' = versionPrefix @ V @ lineRest content i"
    unfolding c'_def using li by (metis append_eq_conv_conj)
  have d2: "drop (i + length versionPrefix) c' = V @ lineRest content i"
    using d by (metis add.commute append_eq_conv_conj drop_drop)
  have rest: "lineRest content i = [] \<or> isLineTerminator (hd (lineRest content i))"
    unfolding lineRest_def by (metis hd_dropWhile)
  have "takeWhile (\<lambda>c. \<not> isLineTerminator c) (V @ lineRest content i) = V"
    using V rest by (cases "lineRest content i") (auto simp: takeWhile_append2 takeWhile_tail)
  moreover have "dropWhile (\<lambda>c. \<not> isLineTerminator c) (V @ lineRest content i) = lineRest content i"
    using V rest by (cases "lineRest content i") (auto simp: dropWhile_append2)
  ultimately show "lineRest c' i = lineRest content i"
    unfolding lineRest_def [of c'] d2 by simp
  have start: "i = 0 \<or> isLineTerminator (c' ! (i - 1))"
  proof (cases "i = 0")
    case False
    then have "c' ! (i - 1) = content ! (i - 1)"
      using t by (metis diff_less nth_take not_gr_zero zero_less_one)
    then show ?thesis using v False by (simp add: versionLineAt_def)
  qed simp
  have len: "length c' = i + length versionPrefix + length V + length (lineRest content i)"
    unfolding c'_def using li by simp
  have "c' ! (i + length versionPrefix) = hd (drop (i + length versionPrefix) c')"
    using len V by (simp add: hd_drop_conv_nth)
  also have "\<dots> = hd V" using d2 V by simp
  finally have nxt: "\<not> isLineTerminator (c' ! (i + length versionPrefix))"
    using V by (cases V) auto
  show "versionLineAt c' i"
    unfolding versionLineAt_def using start d nxt len V by simp
qed

lemma firstVersionLine_rewritten:
  assumes f: "firstVersionLine content = Some i" and V: "V \<noteq> []" "\<forall>c \<in> set V. \<not> isLineTerminator c"
  shows "firstVersionLine (take i content @ versionPrefix @ V @ lineRest content i) = Some i"
proof -
  let ?c' = "take i content @ versionPrefix @ V @ lineRest content i"
  from f have v: "versionLineAt content i" and first: "\<forall>j<i. \<not> versionLineAt content j"
    by (simp_all add: firstVersionLine_Some_iff)
  note r = rewritten_line [OF v V]
  have i: "i \<le> length content" "i \<le> length ?c'"
    using v r(1) by (simp_all add: versionLineAt_def)
  have "0 < i \<Longrightarrow> isLineTerminator (content ! (i - 1))"
    using v by (simp add: versionLineAt_def)
  then have "\<forall>j<i. versionLineAt content j = versionLineAt ?c' j"
    using versionLineAt_before [OF r(3) [symmetric] i] by blast
  then show ?thesis
    using r(1) first by (simp add: firstVersionLine_Some_iff)
qed

text \<open>
  Claim C2. For a version text \<open>V1\<close> (and \<open>V2\<close>), \<open>updateVersionInContent\<close>
  replaces the value of the first line matching \<open>## Version: <anything>\<close> and
  nothing else: the content in front of that line, the literal and everything from
  the end of the line on (its line terminator and all later lines, later version
  lines included) are kept as they are. Rewriting twice, first to \<open>V1\<close> and then to
  \<open>V2\<close>, gives the original content with \<open>V2\<close> on that line. A content without
  such a line is returned unchanged, whatever the new version is.
\<close>

theorem updateVersionInContent_one_line:
  assumes "plainVersionText V1" and "plainVersionText V2"
  shows "(firstVersionLine content = None \<longrightarrow> updateVersionInContent content V = content)
    \<and> updateVersionInContent content V1 =
        (case firstVersionLine content of None \<Rightarrow> content
         | Some i \<Rightarrow> take i content @ versionPrefix @ V1 @ lineRest content i)
    \<and> updateVersionInContent (updateVersionInContent content V1) V2 =
        (case firstVersionLine content of None \<Rightarrow> content
         | Some i \<Rightarrow> take i content @ versionPrefix @ V2 @ lineRest content i)"
proof -
  have d1: "0x24 \<notin> set V1" and d2: "0x24 \<notin> set V2"
    and n1: "V1 \<noteq> []" "\<forall>c \<in> set V1. \<not> isLineTerminator c"
    using assms by (auto simp: plainVersionText_def)
  have none: "firstVersionLine content = None \<longrightarrow> updateVersionInContent content V = content"
    by (simp add: updateVersionInContent_def tocPattern_match_first)
  have twice: "updateVersionInContent (updateVersionInContent content V1) V2 =
        (case firstVersionLine content of None \<Rightarrow> content
         | Some i \<Rightarrow> take i content @ versionPrefix @ V2 @ lineRest content i)"
  proof (cases "firstVersionLine content")
    case None
    then show ?thesis by (simp add: updateVersionInContent_spec [OF d1] updateVersionInContent_spec [OF d2])
  next
    case (Some i)
    then have v: "versionLineAt content i" by (simp add: firstVersionLine_Some_iff)
    show ?thesis
      using Some firstVersionLine_rewritten [OF Some n1] rewritten_line(2,3) [OF v n1]
      by (simp add: updateVersionInContent_spec [OF d1] updateVersionInContent_spec [OF d2])
  qed
  show ?thesis
    using none twice updateVersionInContent_spec [OF d1, of content] by blast
qed

theorem updateVersionInContent_one_line_witness:
  "plainVersionText (ustr ''1.2.4'') \<and> plainVersionText (ustr ''2.0.0'')
   \<and> firstVersionLine emptyVersionToc = None
   \<and> updateVersionInContent emptyVersionToc (ustr ''$&'') = emptyVersionToc
   \<and> updateVersionInContent sampleToc (ustr ''1.2.4'') =
       ustr ''## Title: X'' @ [0x0D, 0x0A] @ ustr ''## Version: 1.2.4'' @ [0x0D, 0x0A]
         @ ustr ''## Version: 9.9.9'' @ [0x0A]
   \<and> updateVersionInContent (updateVersionInContent sampleToc (ustr ''1.2.4'')) (ustr ''2.0.0'') =
       ustr ''## Title: X'' @ [0x0D, 0x0A] @ ustr ''## Version: 2.0.0'' @ [0x0D, 0x0A]
         @ ustr ''## Version: 9.9.9'' @ [0x0A]"
proof -
  have p1: "plainVersionText (ustr ''1.2.4'')" and p2: "plainVersionText (ustr ''2.0.0'')"
    by (simp_all add: plainVersionText_def ustr_def isLineTerminator_def)
  have none: "firstVersionLine emptyVersionToc = None"
    by code_simp
  have first: "firstVersionLine sampleToc = Some 13"
    by code_simp
  have r1: "take 13 sampleToc @ versionPrefix @ ustr ''1.2.4'' @ lineRest sampleToc 13 =
      ustr ''## Title: X'' @ [0x0D, 0x0A] @ ustr ''## Version: 1.2.4'' @ [0x0D, 0x0A]
         @ ustr ''## Version: 9.9.9'' @ [0x0A]"
    by code_simp
  have r2: "take 13 sampleToc @ versionPrefix @ ustr ''2.0.0'' @ lineRest sampleToc 13 =
      ustr ''## Title: X'' @ [0x0D, 0x0A] @ ustr ''## Version: 2.0.0'' @ [0x0D, 0x0A]
         @ ustr ''## Version: 9.9.9'' @ [0x0A]"
    by code_simp
  have e: "updateVersionInContent emptyVersionToc (ustr ''$&'') = emptyVersionToc"
    using updateVersionInContent_one_line [OF p1 p2, of emptyVersionToc "ustr ''$&''"] none
    by blast
  note s = updateVersionInContent_one_line [OF p1 p2, of sampleToc, unfolded first option.case r1 r2]
  from s e p1 p2 none show ?thesis
    by blast
qed

section \<open>The outside world\<close>

text \<open>
  What the program reaches through Deno: text files and directory listings (reading
  one that is absent or unreadable throws, here \<open>None\<close>), paths that cannot be
  written, the configuration as \<open>JSON.parse\<close> of \<open>config.json\<close> gives it (\<open>None\<close>
  when the file cannot be read or parsed), the working directory, and the processes
  it spawns. The outcome of a process is not the program's to decide: \<open>spawn\<close> gives
  it from the processes run so far, the command, its arguments and its directory
  (\<open>None\<close> when the process cannot be started). \<open>executed\<close> records every process
  that was run, \<open>console\<close> every line that was printed.
\<close>

record TocFile =
  path :: ustring
  content :: ustring
  version :: ustring
  addonName :: ustring

record Config =
  whitelistedAddons :: "ustring list"
  addonsDirectory :: ustring

record DirEntry =
  name :: ustring
  isFile :: bool
  isDirectory :: bool

record Output =
  code :: nat
  stdout :: ustring
  stderr :: ustring

record Spawned =
  program :: ustring
  args :: "ustring list"
  dir :: ustring
  outcome :: "Output option"

datatype BumpType = Major | Minor | Patch

text \<open>
  The errors the program throws or catches. \<open>IOError\<close> stands for whatever Deno throws
  on a failed read, write or spawn; \<open>SemverTypeError\<close> is the \<open>TypeError\<close> of the
  semantic-version library's \<open>parse\<close>; \<open>CommandFailed command stderr\<close> is the error of
  \<open>runCommandInDir\<close>; the last two are the errors of \<open>parseBumpArgs\<close>.
\<close>

datatype Exn =
    IOError
  | ReduceOfEmptyArray
  | SemverTypeError ustring
  | CommandFailed ustring ustring
  | CouldNotDetermineVersion
  | InvalidBumpArguments

text \<open>
  Console lines. A message is kept as the template it is printed from, with the
  values the template interpolates; decoration (emoji, indentation, blank lines) is
  left out. \<open>Log\<close>, \<open>Warn\<close> and \<open>Error\<close> are \<open>console.log\<close>, \<open>console.warn\<close> and
  \<open>console.error\<close>.
\<close>

datatype Msg =
    LoadedConfiguration
  | CouldNotLoadConfig Exn
  | WhitelistedAddons "ustring list"
  | FoundExcludedAddons nat
  | FoundTocFilesIn ustring "ustring list"
  | NoVersionFoundIn ustring
  | CouldNotRead ustring Exn
  | CouldNotReadDirectory ustring Exn
  | ErrorReadingAddonsDirectory Exn
  | NoTocFilesFoundForAddon "ustring option"
  | CurrentHighestVersionFor ustring ustring
  | NextVersionFor ustring ustring BumpType
  | CurrentHighestVersion ustring
  | NextVersionWillBe ustring BumpType
  | DryRunMode
  | WouldUpdate ustring ustring ustring
  | Updated ustring ustring ustring
  | FailedToUpdate ustring Exn
  | WouldCreateTag ustring
  | WouldCommitWithMessage ustring
  | WouldPushChangesAndTag
  | CommittingChanges
  | CreatingTag ustring
  | PushingChangesAndTag
  | VersionBumpCompleted
  | ReleaseWillBeCreated ustring
  | GitOperationsFailed Exn
  | BumpingAddonTo ustring ustring
  | Separator
  | BumpingAllTo ustring
  | BumpingAllIndividually
  | AddonHeader ustring
  | WouldCreateTagsForAll
  | CreatingTagsForAll
  | WouldCreateTagFor ustring
  | CreatingTagFor ustring
  | NoVersionProvided
  | CouldNotDetermine
  | AutoIncrementingTo ustring
  | BumpingAllToIndividual
  | NoAddonSpecified
  | Examples
  | NoVersionForAddon
  | UnknownCommand
  | ErrorMessage Exn
  | HelpText
  | CurrentVersions "ustring option" "TocFile list"
  | AvailableAddons "TocFile list"
  | Whitelist Config
  | Configuration Config

datatype Event = Log Msg | Warn Msg | Error Msg

record World =
  files :: "ustring \<Rightarrow> ustring option"
  dirs :: "ustring \<Rightarrow> DirEntry list option"
  readOnly :: "ustring \<Rightarrow> bool"
  configFile :: "Config option"
  cwd :: ustring
  spawn :: "Spawned list \<Rightarrow> ustring \<Rightarrow> ustring list \<Rightarrow> ustring \<Rightarrow> Output option"
  executed :: "Spawned list"
  console :: "Event list"

text \<open>
  The result of a call that may end the process: a value, or \<open>Deno.exit\<close> with a
  code. A call that may throw has a result in \<open>Exn + 'a\<close>.
\<close>

datatype 'a Result = Ok 'a | Exit nat

section \<open>toc-manager.ts: loading the catalog\<close>

definition endsWith :: "ustring \<Rightarrow> ustring \<Rightarrow> bool" where
  "endsWith s suffix \<longleftrightarrow>
     length suffix \<le> length s \<and> drop (length s - length suffix) s = suffix"

text \<open>
  The innermost loop of \<open>loadAllTocFiles\<close>, over the \<open>.toc\<close> files of one addon
  directory: a file that cannot be read and a file without a version line are
  warned about and skipped, any other file gives a record whose version is
  \<open>match[1]\<close>. The result is the records pushed and the lines printed.
\<close>

fun loadTocFilesOf ::
  "World \<Rightarrow> ustring \<Rightarrow> ustring \<Rightarrow> ustring list \<Rightarrow> TocFile list \<times> Event list" where
  "loadTocFilesOf w addonPath addonDir [] = ([], [])"
| "loadTocFilesOf w addonPath addonDir (tocFile # others) =
     (let filePath = addonPath @ ustr ''/'' @ tocFile;
          (pushed, printed) =
            (case files w filePath of
               None \<Rightarrow> ([], [Warn (CouldNotRead filePath IOError)])
             | Some text \<Rightarrow>
                 (case tocPattern_match text of
                    Some m \<Rightarrow>
                      ([\<lparr>path = filePath, content = text, version = group1 m,
                         addonName = addonDir\<rparr>], [])
                  | None \<Rightarrow> ([], [Warn (NoVersionFoundIn filePath)])));
          (pushed', printed') = loadTocFilesOf w addonPath addonDir others
      in (pushed @ pushed', printed @ printed'))"

text \<open>
  The loop over the whitelisted addon directories: a directory that cannot be
  listed is warned about and skipped.
\<close>

fun loadAddonDirs ::
  "World \<Rightarrow> bool \<Rightarrow> ustring \<Rightarrow> ustring list \<Rightarrow> TocFile list \<times> Event list" where
  "loadAddonDirs w verbose addonsDir [] = ([], [])"
| "loadAddonDirs w verbose addonsDir (addonDir # others) =
     (let addonPath = addonsDir @ ustr ''/'' @ addonDir;
          (pushed, printed) =
            (case dirs w addonPath of
               None \<Rightarrow> ([], [Warn (CouldNotReadDirectory addonPath IOError)])
             | Some entries \<Rightarrow>
                 (let tocFiles =
                        map name (filter (\<lambda>e. isFile e \<and> endsWith (name e) (ustr ''.toc'')) entries);
                      (fs, es) = loadTocFilesOf w addonPath addonDir tocFiles
                  in (fs, (if verbose then [Log (FoundTocFilesIn addonDir tocFiles)] else []) @ es)));
          (pushed', printed') = loadAddonDirs w verbose addonsDir others
      in (pushed @ pushed', printed @ printed'))"

text \<open>
  \<open>loadAllTocFiles\<close>: the addons directory is listed, its subdirectories are
  restricted to the whitelist, and each is loaded. When the addons directory cannot
  be listed the error is printed and the process exits with code 1.
\<close>

definition loadAllTocFiles :: "World \<Rightarrow> Config \<Rightarrow> bool \<Rightarrow> TocFile list Result \<times> Event list" where
  "loadAllTocFiles w config verbose =
     (let addonsDir = addonsDirectory config;
          whitelist = whitelistedAddons config
      in case dirs w addonsDir of
           None \<Rightarrow> (Exit 1, [Error (ErrorReadingAddonsDirectory IOError)])
         | Some entries \<Rightarrow>
             (let allAddonDirs = map name (filter isDirectory entries);
                  addonDirs = filter (\<lambda>d. d \<in> set whitelist) allAddonDirs;
                  excludedDirs = filter (\<lambda>d. d \<notin> set whitelist) allAddonDirs;
                  (loaded, printed) = loadAddonDirs w verbose addonsDir addonDirs
              in (Ok loaded,
                  (if verbose
                   then Log (WhitelistedAddons addonDirs)
                        # (if length excludedDirs > 0
                           then [Log (FoundExcludedAddons (length excludedDirs))] else [])
                   else [])
                  @ printed)))"

text \<open>\<open>getTocFilesForAddon\<close>: the records of one addon, in catalog order.\<close>

definition getTocFilesForAddon :: "TocFile list \<Rightarrow> ustring \<Rightarrow> TocFile list" where
  "getTocFilesForAddon tocFiles a = filter (\<lambda>f. addonName f = a) tocFiles"

text \<open>
  A small world for the examples: the addons directory holds the whitelisted addon
  \<open>Alpha\<close>, whose \<open>.toc\<close> file has CR LF line ends, and \<open>Gamma\<close>, which is not on the
  whitelist. Every process the program spawns there fails with code 1.
\<close>

definition sampleConfig :: Config where
  "sampleConfig = \<lparr>whitelistedAddons = [ustr ''Alpha''], addonsDirectory = ustr ''./addons''\<rparr>"

definition sampleWorld :: World where
  "sampleWorld =
     \<lparr>files = (\<lambda>p. if p = ustr ''./addons/Alpha/Alpha.toc'' then Some sampleToc else None),
      dirs = (\<lambda>p. if p = ustr ''./addons''
                   then Some [\<lparr>name = ustr ''Alpha'', isFile = False, isDirectory = True\<rparr>,
                              \<lparr>name = ustr ''Gamma'', isFile = False, isDirectory = True\<rparr>]
                   else if p = ustr ''./addons/Alpha''
                   then Some [\<lparr>name = ustr ''Alpha.toc'', isFile = True, isDirectory = False\<rparr>,
                              \<lparr>name = ustr ''Alpha.lua'', isFile = True, isDirectory = False\<rparr>]
                   else None),
      readOnly = (\<lambda>p. False),
      configFile = Some sampleConfig,
      cwd = ustr ''/work'',
      spawn = (\<lambda>h c a d. Some \<lparr>code = 1, stdout = [], stderr = ustr ''fatal''\<rparr>),
      executed = [],
      console = []\<rparr>"

definition alphaToc :: TocFile where
  "alphaToc = \<lparr>path = ustr ''./addons/Alpha/Alpha.toc'', content = sampleToc,
     version = ustr ''1.2.3'', addonName = ustr ''Alpha''\<rparr>"

subsection \<open>Properties of the catalog\<close>

lemma lineValue_no_terminator: "c \<in> set (lineValue text i) \<Longrightarrow> \<not> isLineTerminator c"
  unfolding lineValue_def by (auto dest: set_takeWhileD)

lemma lineRest_starts_with_terminator:
  "lineRest text i = [] \<or> isLineTerminator (hd (lineRest text i))"
  unfolding lineRest_def by (metis hd_dropWhile)

lemma version_line_decomposition:
  assumes "versionLineAt text i"
  shows "text = take i text @ versionPrefix @ lineValue text i @ lineRest text i"
proof -
  have "drop i text = take (length versionPrefix) (drop i text) @ drop (length versionPrefix) (drop i text)"
    by (rule append_take_drop_id [symmetric])
  also have "\<dots> = versionPrefix @ drop (i + length versionPrefix) text"
    using assms by (simp add: versionLineAt_def add.commute)
  also have "drop (i + length versionPrefix) text = lineValue text i @ lineRest text i"
    by (simp add: lineValue_def lineRest_def)
  finally have "drop i text = versionPrefix @ lineValue text i @ lineRest text i" .
  then show ?thesis by (metis append_take_drop_id)
qed

lemma loadTocFilesOf_sound:
  "t \<in> set (fst (loadTocFilesOf w addonPath addonDir tocNames)) \<Longrightarrow>
     files w (path t) = Some (content t)
     \<and> map_option group1 (tocPattern_match (content t)) = Some (version t)
     \<and> addonName t = addonDir"
  by (induction tocNames) (auto simp: Let_def split: prod.splits option.splits)

lemma fst_loadAddonDirs_Cons:
  "fst (loadAddonDirs w verbose addonsDir (a # as)) =
     (case dirs w (addonsDir @ ustr ''/'' @ a) of
        None \<Rightarrow> []
      | Some entries \<Rightarrow>
          fst (loadTocFilesOf w (addonsDir @ ustr ''/'' @ a) a
            (map name (filter (\<lambda>e. isFile e \<and> endsWith (name e) (ustr ''.toc'')) entries))))
     @ fst (loadAddonDirs w verbose addonsDir as)"
  by (simp add: Let_def split: prod.splits option.splits)

lemma loadAddonDirs_sound:
  "t \<in> set (fst (loadAddonDirs w verbose addonsDir addonDirs)) \<Longrightarrow>
     files w (path t) = Some (content t)
     \<and> map_option group1 (tocPattern_match (content t)) = Some (version t)
     \<and> addonName t \<in> set addonDirs"
proof (induction addonDirs)
  case Nil
  then show ?case by simp
next
  case (Cons a as)
  show ?case
  proof (cases "t \<in> set (fst (loadAddonDirs w verbose addonsDir as))")
    case True
    from Cons.IH [OF True] show ?thesis by simp
  next
    case False
    show ?thesis
    proof (cases "dirs w (addonsDir @ ustr ''/'' @ a)")
      case None
      with Cons.prems False show ?thesis
        unfolding fst_loadAddonDirs_Cons by simp
    next
      case (Some entries)
      with Cons.prems False have
        "t \<in> set (fst (loadTocFilesOf w (addonsDir @ ustr ''/'' @ a) a
            (map name (filter (\<lambda>e. isFile e \<and> endsWith (name e) (ustr ''.toc'')) entries))))"
        unfolding fst_loadAddonDirs_Cons by simp
      from loadTocFilesOf_sound [OF this] show ?thesis by simp
    qed
  qed
qed

lemma loadAllTocFiles_sound:
  assumes "loadAllTocFiles w config verbose = (Ok tocFiles, printed)" and "t \<in> set tocFiles"
  shows "files w (path t) = Some (content t)
     \<and> map_option group1 (tocPattern_match (content t)) = Some (version t)
     \<and> addonName t \<in> set (whitelistedAddons config)"
proof -
  show ?thesis
  proof (cases "dirs w (addonsDirectory config)")
    case None
    with assms(1) show ?thesis
      by (simp add: loadAllTocFiles_def)
  next
    case (Some entries)
    with assms(1) have "tocFiles = fst (loadAddonDirs w verbose (addonsDirectory config)
        (filter (\<lambda>d. d \<in> set (whitelistedAddons config)) (map name (filter isDirectory entries))))"
      by (simp add: loadAllTocFiles_def Let_def split: prod.splits)
    with assms(2) have "t \<in> set (fst (loadAddonDirs w verbose (addonsDirectory config)
        (filter (\<lambda>d. d \<in> set (whitelistedAddons config)) (map name (filter isDirectory entries)))))"
      by simp
    from loadAddonDirs_sound [OF this] show ?thesis by auto
  qed
qed

text \<open>
  Claim C9. Every record of a successfully loaded catalog holds the text that was
  read from its path, and its version is the rest of the first line matching
  \<open>## Version: <value>\<close>: the content is the text in front of that line, the
  literal, the version, and a remainder that is empty or begins with the line
  terminator. The version is not empty and holds no line terminator, so with CR LF
  line ends no carriage return.
\<close>

theorem loaded_version_is_rest_of_line:
  assumes "loadAllTocFiles w config verbose = (Ok tocFiles, printed)" and "t \<in> set tocFiles"
  shows "files w (path t) = Some (content t)
     \<and> (\<exists>i. firstVersionLine (content t) = Some i
            \<and> content t = take i (content t) @ versionPrefix @ version t @ lineRest (content t) i
            \<and> (lineRest (content t) i = [] \<or> isLineTerminator (hd (lineRest (content t) i))))
     \<and> version t \<noteq> []
     \<and> (\<forall>c \<in> set (version t). \<not> isLineTerminator c)
     \<and> 0x0D \<notin> set (version t)"
proof -
  from loadAllTocFiles_sound [OF assms]
  have f: "files w (path t) = Some (content t)"
    and m: "map_option group1 (tocPattern_match (content t)) = Some (version t)"
    by simp_all
  from m obtain i where i: "firstVersionLine (content t) = Some i"
    and v: "version t = lineValue (content t) i"
    by (auto simp: tocPattern_match_first)
  from i have at: "versionLineAt (content t) i"
    by (simp add: firstVersionLine_Some_iff)
  have nt: "\<forall>c \<in> set (version t). \<not> isLineTerminator c"
    using v lineValue_no_terminator by simp
  then have cr: "0x0D \<notin> set (version t)"
    by (auto simp: isLineTerminator_def)
  have ne: "version t \<noteq> []"
    using at unfolding v lineValue_def versionLineAt_def
    by (simp add: takeWhile_nonempty_iff hd_drop_conv_nth)
  show ?thesis
    using f i v version_line_decomposition [OF at] lineRest_starts_with_terminator [of "content t" i] nt cr ne
    by auto
qed

theorem loaded_version_is_rest_of_line_witness:
  "loadAllTocFiles sampleWorld sampleConfig False = (Ok [alphaToc], [])
   \<and> alphaToc \<in> set [alphaToc]
   \<and> files sampleWorld (path alphaToc) = Some (content alphaToc)
   \<and> version alphaToc = ustr ''1.2.3''
   \<and> 0x0D \<notin> set (version alphaToc)"
proof -
  have l: "loadAllTocFiles sampleWorld sampleConfig False = (Ok [alphaToc], [])"
    by code_simp
  have m: "alphaToc \<in> set [alphaToc]"
    by simp
  have v: "version alphaToc = ustr ''1.2.3''"
    by (simp add: alphaToc_def)
  from loaded_version_is_rest_of_line [OF l m] l m v show ?thesis
    by blast
qed

section \<open>version-manager.ts: numbers of JavaScript\<close>

text \<open>
  The values of \<open>Number(s)\<close> for a string \<open>s\<close>: not-a-number, the two infinities and
  the finite doubles, each held as the rational number it denotes. The two zeros
  are one value here: \<open>-0 || 0\<close> is \<open>0\<close>, and \<open><\<close> and \<open>>\<close> do not tell them apart.
\<close>

datatype jsnum = NaN | NegInf | Fin rat | PosInf

text \<open>
  The double nearest to the positive rational \<open>p / d\<close>, as IEEE 754 binary64 rounds
  (to nearest, ties to the even significand). \<open>log2floor n\<close> is the position of the
  highest bit of \<open>n\<close>. \<open>roundDiv p d\<close> is the integer nearest to \<open>p / d\<close>, the even one of
  two at equal distance. \<open>ratioExponent p d\<close> is the binary exponent of \<open>p / d\<close>, that is
  the floor of the binary logarithm of \<open>p / d\<close>, and \<open>-1022\<close> for the subnormal range below \<open>2^-1022\<close>. A double with
  exponent \<open>e\<close> is a multiple of \<open>2^(e - 52)\<close>; a value that rounds up to \<open>2^1024\<close> is
  \<open>Infinity\<close>, and one that rounds down to nothing is \<open>0\<close>.
\<close>

fun log2from :: "nat \<Rightarrow> nat \<Rightarrow> nat" where
  "log2from k n = (if n < 2 then k else log2from (k + 1) (n div 2))"

declare log2from.simps [simp del]

definition log2floor :: "nat \<Rightarrow> nat" where
  "log2floor n = log2from 0 n"

definition roundDiv :: "nat \<Rightarrow> nat \<Rightarrow> nat" where
  "roundDiv p d =
     (let q = p div d; r = p mod d
      in if 2 * r < d then q else if d < 2 * r then q + 1 else if even q then q else q + 1)"

definition ratioExponent :: "nat \<Rightarrow> nat \<Rightarrow> int" where
  "ratioExponent p d =
     (if d \<le> p then int (log2floor (p div d))
      else if p * 2 ^ 1022 < d then - 1022
      else - (1 + int (log2floor ((d - 1) div p))))"

definition doubleOfRatio :: "nat \<Rightarrow> nat \<Rightarrow> jsnum" where
  "doubleOfRatio p d =
     (if p = 0 then Fin 0
      else if d * 2 ^ 1024 \<le> p then PosInf
      else
        (let e = ratioExponent p d
         in if 52 \<le> e
            then (let n = roundDiv p (d * 2 ^ nat (e - 52)) * 2 ^ nat (e - 52)
                  in if 2 ^ 1024 \<le> n then PosInf else Fin (of_nat n))
            else Fin (of_nat (roundDiv (p * 2 ^ nat (52 - e)) d) / 2 ^ nat (52 - e))))"

definition negate :: "jsnum \<Rightarrow> jsnum" where
  "negate x = (case x of NaN \<Rightarrow> NaN | NegInf \<Rightarrow> PosInf | Fin q \<Rightarrow> Fin (- q) | PosInf \<Rightarrow> NegInf)"

text \<open>\<open>StrWhiteSpaceChar\<close>: white space and line terminators, as \<open>trim\<close> strips them.\<close>

definition isWhiteSpace :: "16 word \<Rightarrow> bool" where
  "isWhiteSpace c \<longleftrightarrow>
     c = 0x09 \<or> c = 0x0B \<or> c = 0x0C \<or> c = 0x20 \<or> c = 0xA0 \<or> c = 0x1680
     \<or> (0x2000 \<le> c \<and> c \<le> 0x200A) \<or> c = 0x202F \<or> c = 0x205F \<or> c = 0x3000
     \<or> c = 0xFEFF \<or> isLineTerminator c"

definition trim :: "ustring \<Rightarrow> ustring" where
  "trim s = rev (dropWhile isWhiteSpace (rev (dropWhile isWhiteSpace s)))"

definition isHexDigit :: "16 word \<Rightarrow> bool" where
  "isHexDigit c \<longleftrightarrow> isDigit c \<or> (0x61 \<le> c \<and> c \<le> 0x66) \<or> (0x41 \<le> c \<and> c \<le> 0x46)"

definition hexValue :: "16 word \<Rightarrow> nat" where
  "hexValue c =
     (if isDigit c then unat c - 48 else if 0x61 \<le> c then unat c - 87 else unat c - 55)"

definition digitsToNat :: "nat \<Rightarrow> ustring \<Rightarrow> nat" where
  "digitsToNat base ds = foldl (\<lambda>a c. a * base + hexValue c) 0 ds"

text \<open>\<open>NonDecimalIntegerLiteral\<close>: \<open>0x\<close>, \<open>0o\<close> or \<open>0b\<close> and digits of that base, unsigned.\<close>

definition nonDecimal :: "ustring \<Rightarrow> jsnum option" where
  "nonDecimal t =
     (case t of
        z # x # ds \<Rightarrow>
          if z = 0x30 \<and> ds \<noteq> [] then
            if (x = 0x78 \<or> x = 0x58) \<and> list_all isHexDigit ds
            then Some (doubleOfRatio (digitsToNat 16 ds) 1)
            else if (x = 0x6F \<or> x = 0x4F) \<and> list_all (\<lambda>c. 0x30 \<le> c \<and> c \<le> 0x37) ds
            then Some (doubleOfRatio (digitsToNat 8 ds) 1)
            else if (x = 0x62 \<or> x = 0x42) \<and> list_all (\<lambda>c. c = 0x30 \<or> c = 0x31) ds
            then Some (doubleOfRatio (digitsToNat 2 ds) 1)
            else None
          else None
      | _ \<Rightarrow> None)"

text \<open>The double of \<open>n \<times> 10^e\<close>, the value of the digits \<open>n\<close> with the exponent \<open>e\<close>.\<close>

definition scale10 :: "nat \<Rightarrow> int \<Rightarrow> jsnum" where
  "scale10 n e =
     (if 0 \<le> e then doubleOfRatio (n * 10 ^ nat e) 1 else doubleOfRatio n (10 ^ nat (- e)))"

text \<open>\<open>ExponentPart\<close>, or nothing: \<open>e\<close> or \<open>E\<close>, an optional sign, and digits.\<close>

definition exponentPart :: "ustring \<Rightarrow> int option" where
  "exponentPart r =
     (case r of
        [] \<Rightarrow> Some 0
      | c # r' \<Rightarrow>
          if c = 0x65 \<or> c = 0x45 then
            (let neg = (r' \<noteq> [] \<and> hd r' = 0x2D);
                 ds = (if r' \<noteq> [] \<and> (hd r' = 0x2B \<or> hd r' = 0x2D) then tl r' else r')
             in if ds \<noteq> [] \<and> list_all isDigit ds
                then Some ((if neg then - 1 else 1) * int (digitsToNat 10 ds)) else None)
          else None)"

text \<open>
  \<open>StrUnsignedDecimalLiteral\<close> but \<open>Infinity\<close>: digits, an optional fraction, an
  optional exponent, with a digit in front of or after the dot.
\<close>

definition unsignedDecimal :: "ustring \<Rightarrow> jsnum option" where
  "unsignedDecimal u =
     (let ip = takeWhile isDigit u;
          r1 = dropWhile isDigit u;
          dot = (r1 \<noteq> [] \<and> hd r1 = 0x2E);
          fp = (if dot then takeWhile isDigit (tl r1) else []);
          r2 = (if dot then dropWhile isDigit (tl r1) else r1)
      in if ip = [] \<and> fp = [] then None
         else map_option
                (\<lambda>e. scale10 (digitsToNat 10 (ip @ fp)) (e - int (length fp)))
                (exponentPart r2))"

definition strDecimal :: "ustring \<Rightarrow> jsnum" where
  "strDecimal t =
     (let neg = (t \<noteq> [] \<and> hd t = 0x2D);
          u = (if t \<noteq> [] \<and> (hd t = 0x2B \<or> hd t = 0x2D) then tl t else t)
      in if u = ustr ''Infinity'' then (if neg then NegInf else PosInf)
         else (case unsignedDecimal u of
                 None \<Rightarrow> NaN
               | Some q \<Rightarrow> if neg then negate q else q))"

text \<open>
  \<open>Number(s)\<close>, that is \<open>StringToNumber\<close>: the string is trimmed, the empty string is
  0, a string that is no numeric literal is \<open>NaN\<close>, and the value of a literal is
  rounded to the nearest double (the engine of Deno rounds every literal so, also
  one of more than twenty digits).
\<close>

definition Number_js :: "ustring \<Rightarrow> jsnum" where
  "Number_js s =
     (let t = trim s
      in if t = [] then Fin 0
         else (case nonDecimal t of Some n \<Rightarrow> n | None \<Rightarrow> strDecimal t))"

text \<open>The comparisons \<open><\<close> and \<open>>\<close> of numbers: false as soon as one side is \<open>NaN\<close>.\<close>

fun js_less :: "jsnum \<Rightarrow> jsnum \<Rightarrow> bool" where
  "js_less NaN b = False"
| "js_less a NaN = False"
| "js_less PosInf b = False"
| "js_less a NegInf = False"
| "js_less NegInf b = True"
| "js_less a PosInf = True"
| "js_less (Fin a) (Fin b) = (a < b)"

definition js_greater :: "jsnum \<Rightarrow> jsnum \<Rightarrow> bool" where
  "js_greater a b = js_less b a"

text \<open>
  \<open>xs[i]\<close> is \<open>undefined\<close> (here \<open>None\<close>) out of range, and \<open>x || 0\<close> is 0 when \<open>x\<close> is
  \<open>undefined\<close>, \<open>NaN\<close> or zero.
\<close>

definition elemAt :: "'a list \<Rightarrow> nat \<Rightarrow> 'a option" where
  "elemAt xs i = (if i < length xs then Some (xs ! i) else None)"

definition orZero :: "jsnum option \<Rightarrow> jsnum" where
  "orZero x = (case x of None \<Rightarrow> Fin 0 | Some n \<Rightarrow> if n = NaN \<or> n = Fin 0 then Fin 0 else n)"

text \<open>\<open>s.split(sep)\<close> for a separator of one code unit: always at least one field.\<close>

fun splitOn :: "16 word \<Rightarrow> ustring \<Rightarrow> ustring list" where
  "splitOn sep [] = [[]]"
| "splitOn sep (c # cs) =
     (if c = sep then [] # splitOn sep cs
      else (case splitOn sep cs of f # fs \<Rightarrow> (c # f) # fs | [] \<Rightarrow> [[c]]))"

text \<open>\<open>xs.reduce(f)\<close> without an initial value: a \<open>TypeError\<close> (here \<open>None\<close>) on \<open>[]\<close>.\<close>

definition reduce :: "('a \<Rightarrow> 'a \<Rightarrow> 'a) \<Rightarrow> 'a list \<Rightarrow> 'a option" where
  "reduce f xs = (case xs of [] \<Rightarrow> None | x # rest \<Rightarrow> Some (foldl f x rest))"

section \<open>The semantic-version library\<close>

text \<open>
  \<^verbatim>\<open>import { format, increment, parse } from "@std/semver";\<close>

  The library is not part of the repository. The model follows what the library
  (\<open>jsr:@std/semver\<close>) documents and its source does: \<open>parse\<close> throws a \<open>TypeError\<close> for
  a string of more than \<open>MAX_LENGTH\<close> = 256 code units, trims the string and matches
  it against \<open>FULL_REGEXP\<close>, throwing a \<open>TypeError\<close> when it does not match. The
  expression wants, from start to end, an optional \<open>v\<close>, then \<open>major.minor.patch\<close> (each
  a numeric identifier, that is \<open>0\<close> or digits without a leading zero), optionally
  \<open>-\<close> and dot-separated pre-release identifiers, optionally \<open>+\<close> and dot-separated
  build identifiers. A number above \<open>Number.MAX_SAFE_INTEGER\<close> is a \<open>TypeError\<close> too. A
  \<open>SemVer\<close> has the three numbers, the identifiers of the pre-release and those of the
  build. Every statement below about the result of \<open>getNextVersion\<close> rests on this
  model of the library; the comparison of the records does not.
\<close>

record SemVer =
  sv_major :: nat
  sv_minor :: nat
  sv_patch :: nat
  prerelease :: "ustring list"
  build :: "ustring list"

definition MAX_LENGTH :: nat where
  "MAX_LENGTH = 256"

definition MAX_SAFE_INTEGER :: nat where
  "MAX_SAFE_INTEGER = 9007199254740991"

definition isIdentChar :: "16 word \<Rightarrow> bool" where
  "isIdentChar c \<longleftrightarrow>
     isDigit c \<or> (0x41 \<le> c \<and> c \<le> 0x5A) \<or> (0x61 \<le> c \<and> c \<le> 0x7A) \<or> c = 0x2D"

definition isNumericIdentifier :: "ustring \<Rightarrow> bool" where
  "isNumericIdentifier s \<longleftrightarrow> s = [0x30] \<or> (s \<noteq> [] \<and> hd s \<noteq> 0x30 \<and> list_all isDigit s)"

definition isPrereleaseIdentifier :: "ustring \<Rightarrow> bool" where
  "isPrereleaseIdentifier s \<longleftrightarrow>
     isNumericIdentifier s \<or> (s \<noteq> [] \<and> list_all isIdentChar s \<and> \<not> list_all isDigit s)"

definition isBuildIdentifier :: "ustring \<Rightarrow> bool" where
  "isBuildIdentifier s \<longleftrightarrow> s \<noteq> [] \<and> list_all isIdentChar s"

definition parse :: "ustring \<Rightarrow> Exn + SemVer" where
  "parse v =
     (if length v > MAX_LENGTH then Inl (SemverTypeError v)
      else
        (let t = trim v;
             u = (if t \<noteq> [] \<and> hd t = 0x76 then tl t else t);
             corePre = takeWhile (\<lambda>c. c \<noteq> 0x2B) u;
             b = dropWhile (\<lambda>c. c \<noteq> 0x2B) u;
             core = takeWhile (\<lambda>c. c \<noteq> 0x2D) corePre;
             p = dropWhile (\<lambda>c. c \<noteq> 0x2D) corePre;
             pre = (if p = [] then [] else splitOn 0x2E (tl p));
             bld = (if b = [] then [] else splitOn 0x2E (tl b))
         in case splitOn 0x2E core of
              [ma, mi, pa] \<Rightarrow>
                if isNumericIdentifier ma \<and> isNumericIdentifier mi \<and> isNumericIdentifier pa
                   \<and> list_all isPrereleaseIdentifier pre \<and> list_all isBuildIdentifier bld
                   \<and> digitsToNat 10 ma \<le> MAX_SAFE_INTEGER
                   \<and> digitsToNat 10 mi \<le> MAX_SAFE_INTEGER
                   \<and> digitsToNat 10 pa \<le> MAX_SAFE_INTEGER
                then Inr \<lparr>sv_major = digitsToNat 10 ma, sv_minor = digitsToNat 10 mi,
                          sv_patch = digitsToNat 10 pa, prerelease = pre, build = bld\<rparr>
                else Inl (SemverTypeError t)
            | _ \<Rightarrow> Inl (SemverTypeError t)))"

text \<open>
  \<open>increment\<close> for the three release types the program uses. The pre-release is
  dropped and the build kept. A version without pre-release gets the next number;
  a pre-release of a version is bumped up to that version (\<open>1.2.0-5\<close> patches to
  \<open>1.2.0\<close>, \<open>1.0.0-5\<close> bumps to the major \<open>1.0.0\<close>).
\<close>

definition increment :: "SemVer \<Rightarrow> BumpType \<Rightarrow> SemVer" where
  "increment v release =
     (case release of
        Major \<Rightarrow>
          \<lparr>sv_major = (if prerelease v = [] \<or> sv_minor v \<noteq> 0 \<or> sv_patch v \<noteq> 0
                       then sv_major v + 1 else sv_major v),
           sv_minor = 0, sv_patch = 0, prerelease = [], build = build v\<rparr>
      | Minor \<Rightarrow>
          \<lparr>sv_major = sv_major v,
           sv_minor = (if prerelease v = [] \<or> sv_patch v \<noteq> 0
                       then sv_minor v + 1 else sv_minor v),
           sv_patch = 0, prerelease = [], build = build v\<rparr>
      | Patch \<Rightarrow>
          \<lparr>sv_major = sv_major v, sv_minor = sv_minor v,
           sv_patch = (if prerelease v = [] then sv_patch v + 1 else sv_patch v),
           prerelease = [], build = build v\<rparr>)"

text \<open>A number as a template literal prints it: decimal digits, no leading zero.\<close>

fun showNat :: "nat \<Rightarrow> ustring" where
  "showNat n =
     (if n < 10 then [of_nat (48 + n)] else showNat (n div 10) @ [of_nat (48 + n mod 10)])"

declare showNat.simps [simp del]

fun joinWith :: "16 word \<Rightarrow> ustring list \<Rightarrow> ustring" where
  "joinWith sep [] = []"
| "joinWith sep [x] = x"
| "joinWith sep (x # y # ys) = x @ sep # joinWith sep (y # ys)"

definition format :: "SemVer \<Rightarrow> ustring" where
  "format v =
     (let primary = showNat (sv_major v) @ 0x2E # showNat (sv_minor v) @ 0x2E # showNat (sv_patch v);
          pre = joinWith 0x2E (prerelease v);
          bld = joinWith 0x2E (build v)
      in primary @ (if pre = [] then [] else 0x2D # pre) @ (if bld = [] then [] else 0x2B # bld))"

section \<open>version-manager.ts: the next version\<close>

text \<open>
  The object that \<open>getNextVersion\<close> maps each record to: the three numbers of the
  comparison, the version as it stands in the file, and the addon.
  \<^verbatim>\<open>
  const parts = file.version.split(".").map(Number);
  return { major: parts[0] || 0, minor: parts[1] || 0, patch: parts[2] || 0,
           original: file.version, addonName: file.addonName };
  \<close>
\<close>

record VersionParts =
  major :: jsnum
  minor :: jsnum
  patch :: jsnum
  original :: ustring
  ofAddon :: ustring

definition toVersionParts :: "TocFile \<Rightarrow> VersionParts" where
  "toVersionParts file =
     (let parts = map Number_js (splitOn 0x2E (version file))
      in \<lparr>major = orZero (elemAt parts 0), minor = orZero (elemAt parts 1),
          patch = orZero (elemAt parts 2), original = version file,
          ofAddon = addonName file\<rparr>)"

text \<open>
  The callback of \<open>reduce\<close>:
  \<^verbatim>\<open>
  (max, current) => {
      if (current.major > max.major) return current;
      if (current.major < max.major) return max;
      if (current.minor > max.minor) return current;
      if (current.minor < max.minor) return max;
      if (current.patch > max.patch) return current;
      return max;
  }
  \<close>
\<close>

definition pickHigher :: "VersionParts \<Rightarrow> VersionParts \<Rightarrow> VersionParts" where
  "pickHigher mx current =
     (if js_greater (major current) (major mx) then current
      else if js_less (major current) (major mx) then mx
      else if js_greater (minor current) (minor mx) then current
      else if js_less (minor current) (minor mx) then mx
      else if js_greater (patch current) (patch mx) then current
      else mx)"

definition highestOf :: "TocFile list \<Rightarrow> VersionParts option" where
  "highestOf filesToCheck = reduce pickHigher (map toVersionParts filesToCheck)"

text \<open>
  A string in a condition is true unless it is \<open>undefined\<close> or empty.
\<close>

definition truthy :: "ustring option \<Rightarrow> bool" where
  "truthy x = (case x of None \<Rightarrow> False | Some t \<Rightarrow> t \<noteq> [])"

definition filesToCheckFor :: "TocFile list \<Rightarrow> ustring option \<Rightarrow> TocFile list" where
  "filesToCheckFor tocFiles targetAddon =
     (if truthy targetAddon then getTocFilesForAddon tocFiles (the targetAddon) else tocFiles)"

text \<open>
  \<open>getNextVersion(targetAddon, bumpType)\<close> over the catalog \<open>tocFiles\<close>: the result
  (\<open>null\<close> is \<open>None\<close>, and \<open>parse\<close> may throw) and the lines printed.
\<close>

definition getNextVersion ::
  "TocFile list \<Rightarrow> ustring option \<Rightarrow> BumpType \<Rightarrow> (Exn + ustring option) \<times> Event list" where
  "getNextVersion tocFiles targetAddon bumpType =
     (if length tocFiles = 0 then (Inr None, [])
      else
        (let filesToCheck = filesToCheckFor tocFiles targetAddon
         in if length filesToCheck = 0
            then (Inr None, [Error (NoTocFilesFoundForAddon targetAddon)])
            else
              (case highestOf filesToCheck of
                 None \<Rightarrow> (Inl ReduceOfEmptyArray, [])
               | Some highest \<Rightarrow>
                   (case parse (original highest) of
                      Inl e \<Rightarrow> (Inl e, [])
                    | Inr currentSemver \<Rightarrow>
                        (let nextSemver = increment currentSemver bumpType;
                             nextVersion = format nextSemver
                         in (Inr (Some nextVersion),
                             if truthy targetAddon
                             then [Log (CurrentHighestVersionFor (the targetAddon) (original highest)),
                                   Log (NextVersionFor (the targetAddon) nextVersion bumpType)]
                             else [Log (CurrentHighestVersion (original highest)),
                                   Log (NextVersionWillBe nextVersion bumpType)]))))))"

subsection \<open>The specification's view of the comparison\<close>

text \<open>
  The words of the specification, for comparison: the numeric order on the tuples
  (major, minor, patch), major first, and the first element in scan order that no
  element exceeds.
\<close>

definition tupleLess :: "VersionParts \<Rightarrow> VersionParts \<Rightarrow> bool" where
  "tupleLess a b \<longleftrightarrow>
     js_less (major a) (major b)
     \<or> (major a = major b
        \<and> (js_less (minor a) (minor b)
           \<or> (minor a = minor b \<and> js_less (patch a) (patch b))))"

definition firstHighest :: "VersionParts list \<Rightarrow> VersionParts option" where
  "firstHighest vs = find (\<lambda>v. \<forall>u \<in> set vs. \<not> tupleLess v u) vs"

text \<open>
  The tuple of a record, as the list of its three components, and the code units
  that occur in some numeric literal of a string: digits, the letters of the
  hexadecimal digits, of the prefixes \<open>0x\<close>, \<open>0o\<close>, \<open>0b\<close>, of the exponent and of
  \<open>Infinity\<close>, the signs, the dot and white space. A field with any other code unit
  is no number.
\<close>

definition tupleOf :: "VersionParts \<Rightarrow> jsnum list" where
  "tupleOf v = [major v, minor v, patch v]"


text \<open>No component of the tuple is \<open>NaN\<close>.\<close>

definition properParts :: "VersionParts \<Rightarrow> bool" where
  "properParts v \<longleftrightarrow> major v \<noteq> NaN \<and> minor v \<noteq> NaN \<and> patch v \<noteq> NaN"

text \<open>A record with the given path, addon and version, for the examples.\<close>

definition tocOf :: "string \<Rightarrow> string \<Rightarrow> string \<Rightarrow> TocFile" where
  "tocOf p a v =
     \<lparr>path = ustr p, content = versionPrefix @ ustr v, version = ustr v, addonName = ustr a\<rparr>"

subsection \<open>Evaluation\<close>

lemmas number_defs =
  Number_js_def trim_def isWhiteSpace_def isLineTerminator_def nonDecimal_def strDecimal_def
  unsignedDecimal_def exponentPart_def scale10_def digitsToNat_def hexValue_def isDigit_def
  isHexDigit_def negate_def doubleOfRatio_def ratioExponent_def roundDiv_def log2floor_def
  log2from.simps ustr_def Let_def

lemmas semver_defs =
  parse_def MAX_LENGTH_def MAX_SAFE_INTEGER_def isNumericIdentifier_def
  isPrereleaseIdentifier_def isBuildIdentifier_def isIdentChar_def increment_def format_def

lemmas nextVersion_defs =
  getNextVersion_def filesToCheckFor_def getTocFilesForAddon_def truthy_def highestOf_def
  reduce_def toVersionParts_def pickHigher_def js_greater_def elemAt_def orZero_def

subsection \<open>The order of numbers\<close>

lemma js_less_irrefl: "\<not> js_less a a"
  by (cases a) simp_all

lemma js_less_trans: "js_less a b \<Longrightarrow> js_less b c \<Longrightarrow> js_less a c"
  by (cases a; cases b; cases c) simp_all

lemma js_less_total: "a \<noteq> NaN \<Longrightarrow> b \<noteq> NaN \<Longrightarrow> js_less a b \<or> a = b \<or> js_less b a"
  by (cases a; cases b) auto

lemma orZero_not_NaN: "orZero x \<noteq> NaN"
  by (simp add: orZero_def split: option.splits)

lemma properParts_toVersionParts: "properParts (toVersionParts f)"
  by (simp add: properParts_def toVersionParts_def Let_def orZero_not_NaN)

lemma tupleLess_irrefl: "\<not> tupleLess a a"
  by (simp add: tupleLess_def js_less_irrefl)

lemma js_less_asym: "js_less a b \<Longrightarrow> \<not> js_less b a"
  using js_less_trans js_less_irrefl by blast

lemma js_less_neq: "js_less a b \<Longrightarrow> a \<noteq> b"
  using js_less_irrefl by blast

lemma tupleLess_trans:
  assumes "tupleLess a b" "tupleLess b c"
  shows "tupleLess a c"
  using assms js_less_trans [of "major a" "major b" "major c"]
    js_less_trans [of "minor a" "minor b" "minor c"]
    js_less_trans [of "patch a" "patch b" "patch c"]
  unfolding tupleLess_def by auto

lemma tupleLess_total:
  assumes "properParts a" "properParts b"
  shows "tupleLess a b \<or> tupleLess b a
     \<or> (major a = major b \<and> minor a = minor b \<and> patch a = patch b)"
proof -
  have "js_less (major a) (major b) \<or> major a = major b \<or> js_less (major b) (major a)"
    and "js_less (minor a) (minor b) \<or> minor a = minor b \<or> js_less (minor b) (minor a)"
    and "js_less (patch a) (patch b) \<or> patch a = patch b \<or> js_less (patch b) (patch a)"
    using assms by (simp_all add: properParts_def js_less_total)
  then show ?thesis
    unfolding tupleLess_def by auto
qed

lemma tupleLess_neg_trans:
  assumes "properParts a" "properParts b" "properParts c"
    and "\<not> tupleLess a b" "\<not> tupleLess b c"
  shows "\<not> tupleLess a c"
proof
  assume ac: "tupleLess a c"
  from tupleLess_total [OF assms(1,2)] assms(4)
  consider "tupleLess b a" | "major a = major b \<and> minor a = minor b \<and> patch a = patch b"
    by blast
  then show False
  proof cases
    case 1
    then have "tupleLess b c" using ac by (rule tupleLess_trans)
    with assms(5) show False ..
  next
    case 2
    then have "tupleLess b c" using ac by (simp add: tupleLess_def)
    with assms(5) show False ..
  qed
qed

lemma pickHigher_tupleLess:
  assumes "properParts m" "properParts y"
  shows "pickHigher m y = (if tupleLess m y then y else m)"
proof -
  have M: "js_less (major m) (major y) \<or> major m = major y \<or> js_less (major y) (major m)"
    and N: "js_less (minor m) (minor y) \<or> minor m = minor y \<or> js_less (minor y) (minor m)"
    using assms by (simp_all add: properParts_def js_less_total)
  from M consider (less) "js_less (major m) (major y)" | (greater) "js_less (major y) (major m)"
    | (same) "major m = major y" by blast
  then show ?thesis
  proof cases
    case less
    then show ?thesis by (simp add: pickHigher_def js_greater_def tupleLess_def)
  next
    case greater
    with js_less_asym [OF greater] js_less_neq [OF greater] show ?thesis
      by (auto simp: pickHigher_def js_greater_def tupleLess_def)
  next
    case same
    from N consider (less') "js_less (minor m) (minor y)" | (greater') "js_less (minor y) (minor m)"
      | (same') "minor m = minor y" by blast
    then show ?thesis
    proof cases
      case less'
      then show ?thesis using same
        by (simp add: pickHigher_def js_greater_def tupleLess_def js_less_irrefl)
    next
      case greater'
      with js_less_asym [OF greater'] js_less_neq [OF greater'] show ?thesis using same
        by (auto simp: pickHigher_def js_greater_def tupleLess_def js_less_irrefl)
    next
      case same'
      then show ?thesis using same
        by (simp add: pickHigher_def js_greater_def tupleLess_def js_less_irrefl)
    qed
  qed
qed

subsection \<open>The fold returns the first highest element\<close>

lemma foldl_pickHigher_invariant:
  assumes "\<forall>v \<in> set (x # rest). properParts v"
  shows "\<exists>i < length (x # rest).
           (x # rest) ! i = foldl pickHigher x rest
           \<and> (\<forall>u \<in> set (x # rest). \<not> tupleLess (foldl pickHigher x rest) u)
           \<and> (\<forall>j<i. tupleLess ((x # rest) ! j) (foldl pickHigher x rest))"
  using assms
proof (induction rest rule: rev_induct)
  case Nil
  then show ?case by (simp add: tupleLess_irrefl)
next
  case (snoc y rest)
  let ?m = "foldl pickHigher x rest"
  let ?old = "x # rest" and ?new = "x # rest @ [y]"
  from snoc.prems have pr: "\<forall>v \<in> set ?old. properParts v" and py: "properParts y"
    by simp_all
  from snoc.IH [OF pr] obtain i where i: "i < length ?old" and im: "?old ! i = ?m"
    and mx: "\<forall>u \<in> set ?old. \<not> tupleLess ?m u"
    and first: "\<forall>j<i. tupleLess (?old ! j) ?m"
    by blast
  have "?m \<in> set ?old" using i im nth_mem by metis
  then have pm: "properParts ?m" using pr by blast
  have step: "foldl pickHigher x (rest @ [y]) = (if tupleLess ?m y then y else ?m)"
    by (simp add: pickHigher_tupleLess [OF pm py])
  have nth_old: "?new ! j = ?old ! j" if "j < length ?old" for j
  proof -
    have "?new = ?old @ [y]" by simp
    then show ?thesis using that by (simp only: nth_append if_True)
  qed
  have nth_last: "?new ! length ?old = y"
  proof -
    have "?new = ?old @ [y]" by simp
    then show ?thesis by (simp only: nth_append_length)
  qed
  have set_new: "u \<in> set ?new \<longleftrightarrow> u \<in> set ?old \<or> u = y" for u
    by auto
  show ?case
  proof (cases "tupleLess ?m y")
    case True
    have below: "tupleLess u y" if u: "u \<in> set ?old" for u
    proof -
      have pu: "properParts u" using u pr by blast
      have nm: "\<not> tupleLess ?m u" using mx u by blast
      from tupleLess_total [OF pu pm] nm
      consider "tupleLess u ?m" | "major u = major ?m \<and> minor u = minor ?m \<and> patch u = patch ?m"
        by blast
      then show ?thesis
      proof cases
        case 1
        then show ?thesis using True by (rule tupleLess_trans)
      next
        case 2
        with True show ?thesis by (simp add: tupleLess_def)
      qed
    qed
    have ymax: "\<not> tupleLess y u" if u: "u \<in> set ?new" for u
    proof (cases "u = y")
      case True
      then show ?thesis by (simp add: tupleLess_irrefl)
    next
      case False
      with u have "u \<in> set ?old" by auto
      then have "tupleLess u y" by (rule below)
      then show ?thesis using tupleLess_trans tupleLess_irrefl by blast
    qed
    have early: "tupleLess (?new ! j) y" if j: "j < length ?old" for j
    proof -
      have "?old ! j \<in> set ?old" using j by (rule nth_mem)
      then have "tupleLess (?old ! j) y" by (rule below)
      then show ?thesis using nth_old [OF j] by simp
    qed
    have "length ?old < length ?new" by simp
    moreover have "?new ! length ?old = foldl pickHigher x (rest @ [y])"
      using nth_last step True by simp
    moreover have "\<forall>u \<in> set ?new. \<not> tupleLess (foldl pickHigher x (rest @ [y])) u"
      using ymax step True by simp
    moreover have "\<forall>j<length ?old. tupleLess (?new ! j) (foldl pickHigher x (rest @ [y]))"
      using early step True by simp
    ultimately show ?thesis by blast
  next
    case False
    have "i < length ?new" using i by simp
    moreover have "?new ! i = foldl pickHigher x (rest @ [y])"
      using nth_old [OF i] im step False by simp
    moreover have "\<forall>u \<in> set ?new. \<not> tupleLess (foldl pickHigher x (rest @ [y])) u"
      using mx False step by (simp add: set_new)
    moreover have "\<forall>j<i. tupleLess (?new ! j) (foldl pickHigher x (rest @ [y]))"
    proof (intro allI impI)
      fix j assume j: "j < i"
      then have "j < length ?old" using i by simp
      then have "?new ! j = ?old ! j" by (rule nth_old)
      then show "tupleLess (?new ! j) (foldl pickHigher x (rest @ [y]))"
        using first j step False by simp
    qed
    ultimately show ?thesis by blast
  qed
qed

lemma foldl_pickHigher_first:
  assumes "\<forall>v \<in> set (x # rest). properParts v"
  shows "firstHighest (x # rest) = Some (foldl pickHigher x rest)"
proof -
  let ?m = "foldl pickHigher x rest"
  from foldl_pickHigher_invariant [OF assms] obtain i where i: "i < length (x # rest)"
    and im: "(x # rest) ! i = ?m"
    and mx: "\<forall>u \<in> set (x # rest). \<not> tupleLess ?m u"
    and first: "\<forall>j<i. tupleLess ((x # rest) ! j) ?m"
    by blast
  have m_in: "?m \<in> set (x # rest)" using i im nth_mem by metis
  have nf: "\<forall>j<i. \<not> (\<forall>u \<in> set (x # rest). \<not> tupleLess ((x # rest) ! j) u)"
    using first m_in by blast
  have mx': "\<forall>u \<in> set (x # rest). \<not> tupleLess ((x # rest) ! i) u"
    using mx im by simp
  show ?thesis
    unfolding firstHighest_def find_Some_iff
  proof (intro exI [of _ i] conjI)
    show "i < length (x # rest)" by (rule i)
    show "\<forall>u \<in> set (x # rest). \<not> tupleLess ((x # rest) ! i) u" by (rule mx')
    show "?m = (x # rest) ! i" by (rule im [symmetric])
    show "\<forall>j<i. \<not> (\<forall>u \<in> set (x # rest). \<not> tupleLess ((x # rest) ! j) u)" by (rule nf)
  qed
qed

text \<open>
  Claim C1. For a non-empty record set the highest version is found by comparing
  the numbers (major, minor, patch) in that priority, never the strings, and of
  several records with the maximum tuple the first in scan order is returned: the
  result of the fold is the first element that no element exceeds in the numeric
  order of the tuples. With versions 1.2.3, 1.10.0 and 1.10 it is 1.10.0. The
  numbers are doubles: 9007199254740992 and 9007199254740993 are the same number,
  so of two records with these majors the first is returned.
\<close>

theorem highest_is_first_numeric_maximum:
  assumes "filesToCheck \<noteq> []"
  shows "highestOf filesToCheck = firstHighest (map toVersionParts filesToCheck)
    \<and> highestOf filesToCheck \<noteq> None"
proof -
  from assms obtain f fs where fs: "filesToCheck = f # fs"
    by (cases filesToCheck) auto
  have "\<forall>v \<in> set (toVersionParts f # map toVersionParts fs). properParts v"
    by (auto simp: properParts_toVersionParts)
  from foldl_pickHigher_first [OF this] show ?thesis
    by (simp add: fs highestOf_def reduce_def)
qed

theorem highest_is_first_numeric_maximum_witness:
  "[tocOf ''a.toc'' ''A'' ''1.2.3'', tocOf ''b.toc'' ''A'' ''1.10.0'', tocOf ''c.toc'' ''A'' ''1.10''] \<noteq> []
   \<and> map_option original
        (highestOf [tocOf ''a.toc'' ''A'' ''1.2.3'', tocOf ''b.toc'' ''A'' ''1.10.0'',
                    tocOf ''c.toc'' ''A'' ''1.10''])
      = Some (ustr ''1.10.0'')
   \<and> map_option original
        (firstHighest (map toVersionParts [tocOf ''a.toc'' ''A'' ''1.2.3'',
           tocOf ''b.toc'' ''A'' ''1.10.0'', tocOf ''c.toc'' ''A'' ''1.10'']))
      = Some (ustr ''1.10.0'')
   \<and> map_option original
        (highestOf [tocOf ''a.toc'' ''A'' ''9007199254740992.0.0'',
                    tocOf ''b.toc'' ''A'' ''9007199254740993.0.0''])
      = Some (ustr ''9007199254740992.0.0'')
   \<and> map_option original
        (firstHighest (map toVersionParts [tocOf ''a.toc'' ''A'' ''9007199254740992.0.0'',
           tocOf ''b.toc'' ''A'' ''9007199254740993.0.0'']))
      = Some (ustr ''9007199254740992.0.0'')"
proof -
  have e: "map_option original
        (highestOf [tocOf ''a.toc'' ''A'' ''1.2.3'', tocOf ''b.toc'' ''A'' ''1.10.0'',
                    tocOf ''c.toc'' ''A'' ''1.10''])
      = Some (ustr ''1.10.0'')"
    by (simp add: tocOf_def nextVersion_defs number_defs)
  have n: "[tocOf ''a.toc'' ''A'' ''1.2.3'', tocOf ''b.toc'' ''A'' ''1.10.0'', tocOf ''c.toc'' ''A'' ''1.10''] \<noteq> []"
    by simp
  have e': "map_option original
        (highestOf [tocOf ''a.toc'' ''A'' ''9007199254740992.0.0'',
                    tocOf ''b.toc'' ''A'' ''9007199254740993.0.0''])
      = Some (ustr ''9007199254740992.0.0'')"
    by (simp add: tocOf_def nextVersion_defs number_defs)
  have n': "[tocOf ''a.toc'' ''A'' ''9007199254740992.0.0'',
             tocOf ''b.toc'' ''A'' ''9007199254740993.0.0''] \<noteq> []"
    by simp
  from highest_is_first_numeric_maximum [OF n] highest_is_first_numeric_maximum [OF n'] e e' n
  show ?thesis
    by simp
qed

subsection \<open>Decimal digits\<close>

lemma isDigit_unat: "isDigit c \<longleftrightarrow> 48 \<le> unat c \<and> unat c \<le> 57"
  by (simp add: isDigit_def word_le_nat_alt)

lemma unat_digit: "d < 10 \<Longrightarrow> unat (of_nat (48 + d) :: 16 word) = 48 + d"
  by (subst unat_of_nat) simp

lemma isDigit_digit: "d < 10 \<Longrightarrow> isDigit (of_nat (48 + d))"
  by (simp add: isDigit_unat unat_digit del: of_nat_add)

lemma hexValue_digit: "d < 10 \<Longrightarrow> hexValue (of_nat (48 + d)) = d"
  by (simp add: hexValue_def isDigit_digit unat_digit del: of_nat_add)

lemma digit_is_zero: "d < 10 \<Longrightarrow> (of_nat (48 + d) :: 16 word) = 0x30 \<longleftrightarrow> d = 0"
proof -
  assume d: "d < 10"
  have "(of_nat (48 + d) :: 16 word) = 0x30 \<longleftrightarrow> unat (of_nat (48 + d) :: 16 word) = unat (0x30 :: 16 word)"
    by (simp only: word_unat_eq_iff)
  also have "\<dots> \<longleftrightarrow> d = 0"
    using d by (simp add: unat_digit del: of_nat_add)
  finally show ?thesis .
qed

lemma isDigit_not_special:
  assumes "isDigit c"
  shows "c \<noteq> 0x2E" "c \<noteq> 0x2B" "c \<noteq> 0x2D" "c \<noteq> 0x76" "\<not> isWhiteSpace c"
  using assms
  by (auto simp: isDigit_unat isWhiteSpace_def isLineTerminator_def word_le_nat_alt)

lemma showNat_digits: "showNat n \<noteq> [] \<and> list_all isDigit (showNat n)"
proof (induction n rule: showNat.induct)
  case (1 n)
  show ?case
  proof (cases "n < 10")
    case True
    then show ?thesis
      by (subst (1 2) showNat.simps) (simp add: isDigit_digit del: of_nat_add)
  next
    case False
    with 1 show ?thesis
      by (subst (1 2) showNat.simps) (simp add: isDigit_digit del: of_nat_add)
  qed
qed

lemma digitsToNat_snoc: "digitsToNat b (ds @ [c]) = digitsToNat b ds * b + hexValue c"
  by (simp add: digitsToNat_def)

lemma digitsToNat_showNat: "digitsToNat 10 (showNat n) = n"
proof (induction n rule: showNat.induct)
  case (1 n)
  show ?case
  proof (cases "n < 10")
    case True
    then show ?thesis
      by (subst showNat.simps) (simp add: digitsToNat_def hexValue_digit del: of_nat_add)
  next
    case False
    with 1 show ?thesis
      by (subst showNat.simps) (simp add: digitsToNat_snoc hexValue_digit del: of_nat_add)
  qed
qed

lemma hd_showNat: "hd (showNat n) = 0x30 \<longleftrightarrow> n = 0"
proof (induction n rule: showNat.induct)
  case (1 n)
  show ?case
  proof (cases "n < 10")
    case True
    then show ?thesis
      by (subst showNat.simps) (simp add: digit_is_zero del: of_nat_add)
  next
    case False
    then have "hd (showNat n) = hd (showNat (n div 10))"
      using showNat_digits [of "n div 10"] by (subst showNat.simps) simp
    with 1 False show ?thesis by simp
  qed
qed

lemma showNat_0: "showNat 0 = [0x30]"
  by (simp add: showNat.simps)

lemma isNumericIdentifier_showNat: "isNumericIdentifier (showNat n)"
  using showNat_digits [of n] hd_showNat [of n]
  by (auto simp: isNumericIdentifier_def showNat_0)

lemma length_showNat: "0 < k \<Longrightarrow> n < 10 ^ k \<Longrightarrow> length (showNat n) \<le> k"
proof (induction n arbitrary: k rule: showNat.induct)
  case (1 n)
  show ?case
  proof (cases "n < 10")
    case True
    then show ?thesis using 1(2) by (subst showNat.simps) simp
  next
    case False
    then obtain k' where k: "k = Suc k'" using 1(2) by (cases k) auto
    have "k' \<noteq> 0" using False 1(3) k by (cases k') auto
    moreover have "n div 10 < 10 ^ k'" using 1(3) k
      by (simp add: less_mult_imp_div_less mult.commute)
    ultimately have "length (showNat (n div 10)) \<le> k'"
      using 1(1) [OF False, of k'] by simp
    then show ?thesis using False k by (subst showNat.simps) simp
  qed
qed

lemma length_showNat_safe: "n \<le> MAX_SAFE_INTEGER \<Longrightarrow> length (showNat n) \<le> 16"
  by (rule length_showNat) (simp_all add: MAX_SAFE_INTEGER_def)

subsection \<open>Splitting and trimming\<close>

lemma splitOn_nonempty: "splitOn sep s \<noteq> []"
  by (induction s) (auto split: list.splits)

lemma splitOn_plain: "sep \<notin> set s \<Longrightarrow> splitOn sep s = [s]"
  by (induction s) auto

lemma splitOn_append: "sep \<notin> set a \<Longrightarrow> splitOn sep (a @ sep # b) = a # splitOn sep b"
  by (induction a) auto


lemma dropWhile_all: "list_all P a \<Longrightarrow> dropWhile P (a @ s) = dropWhile P s"
  by (induction a) simp_all



lemma trim_padded:
  assumes "list_all isWhiteSpace a" and "list_all isWhiteSpace b"
    and "s \<noteq> []" and "\<not> isWhiteSpace (hd s)" and "\<not> isWhiteSpace (last s)"
  shows "trim (a @ s @ b) = s"
proof -
  have front: "dropWhile isWhiteSpace (a @ s @ b) = s @ b"
    using assms(1,3,4) by (cases s) (simp_all add: dropWhile_all)
  have "rev (s @ b) = rev b @ rev s" by simp
  moreover have "list_all isWhiteSpace (rev b)"
    using assms(2) by (simp add: list_all_iff)
  moreover have "dropWhile isWhiteSpace (rev s) = rev s"
    using assms(3,5) by (cases "rev s") (auto simp: last_rev [symmetric] simp del: last_rev)
  ultimately have rear: "dropWhile isWhiteSpace (rev (s @ b)) = rev s"
    by (simp add: dropWhile_all)
  show ?thesis
    by (simp only: trim_def front rear rev_rev_ident)
qed

lemma trim_plain:
  assumes "s \<noteq> []" "\<not> isWhiteSpace (hd s)" "\<not> isWhiteSpace (last s)"
  shows "trim s = s"
  using trim_padded [of "[]" "[]" s] assms by simp

lemma trim_decompose:
  "\<exists>a b. s = a @ trim s @ b \<and> list_all isWhiteSpace a \<and> list_all isWhiteSpace b"
proof -
  let ?a = "takeWhile isWhiteSpace s"
  let ?r = "dropWhile isWhiteSpace s"
  let ?b = "rev (takeWhile isWhiteSpace (rev ?r))"
  have "rev (dropWhile isWhiteSpace (rev ?r)) @ ?b
      = rev (takeWhile isWhiteSpace (rev ?r) @ dropWhile isWhiteSpace (rev ?r))"
    by (simp only: rev_append)
  also have "\<dots> = rev (rev ?r)"
    by (simp only: takeWhile_dropWhile_id)
  also have "\<dots> = ?r"
    by (simp only: rev_rev_ident)
  finally have r: "?r = trim s @ ?b"
    by (simp only: trim_def)
  have "s = ?a @ ?r" by simp
  with r have "s = ?a @ trim s @ ?b" by simp
  moreover have "list_all isWhiteSpace ?a"
    by (auto simp: list_all_iff dest: set_takeWhileD)
  moreover have "list_all isWhiteSpace ?b"
    by (auto simp: list_all_iff dest: set_takeWhileD)
  ultimately show ?thesis by blast
qed


lemma digits_set: "list_all isDigit s \<Longrightarrow> c \<in> set s \<Longrightarrow> isDigit c"
  by (simp add: list_all_iff)

subsection \<open>Rounding to a double\<close>

lemma log2from_add: "log2from k n = k + log2from 0 n"
proof (induction n arbitrary: k rule: less_induct)
  case (less n)
  show ?case
  proof (cases "n < 2")
    case True
    then show ?thesis by (simp add: log2from.simps [of _ n])
  next
    case False
    then have lt: "n div 2 < n" by simp
    have a: "log2from k n = log2from (k + 1) (n div 2)"
      using False by (simp add: log2from.simps [of k n])
    have b: "log2from 0 n = log2from 1 (n div 2)"
      using False by (simp add: log2from.simps [of 0 n])
    have c: "log2from (k + 1) (n div 2) = (k + 1) + log2from 0 (n div 2)"
      by (rule less.IH [OF lt])
    have d: "log2from 1 (n div 2) = 1 + log2from 0 (n div 2)"
      by (rule less.IH [OF lt])
    show ?thesis unfolding a b c d by simp
  qed
qed

lemma log2floor_rec: "log2floor n = (if n < 2 then 0 else 1 + log2floor (n div 2))"
  unfolding log2floor_def
  by (simp add: log2from.simps [of 0 n] log2from_add [of "Suc 0"])

text \<open>\<open>log2floor n\<close> is the exponent of the highest power of two that is at most \<open>n\<close>.\<close>

lemma log2floor_bounds: "0 < n \<Longrightarrow> 2 ^ log2floor n \<le> n \<and> n < 2 ^ (log2floor n + 1)"
proof (induction n rule: less_induct)
  case (less n)
  show ?case
  proof (cases "n < 2")
    case True
    with less.prems have "n = 1" by simp
    then show ?thesis by (simp add: log2floor_rec)
  next
    case False
    then have h: "n div 2 < n" "0 < n div 2" by simp_all
    from less.IH [OF h] have "2 ^ log2floor (n div 2) \<le> n div 2"
      and "n div 2 < 2 ^ (log2floor (n div 2) + 1)" by simp_all
    then have "2 * 2 ^ log2floor (n div 2) \<le> n" and "n < 2 * 2 ^ (log2floor (n div 2) + 1)"
      by linarith+
    then show ?thesis
      using False by (subst (1 2) log2floor_rec) simp
  qed
qed

lemma roundDiv_exact: "0 < d \<Longrightarrow> roundDiv (k * d) d = k"
  by (simp add: roundDiv_def)

text \<open>An integer up to \<open>2^53\<close> is a double: rounding does not change it.\<close>

lemma doubleOfRatio_nat:
  assumes "n \<le> 2 ^ 53"
  shows "doubleOfRatio n 1 = Fin (of_nat n)"
proof (cases "n = 0")
  case True
  then show ?thesis by (simp add: doubleOfRatio_def)
next
  case False
  then have pos: "0 < n" by simp
  let ?e = "log2floor n"
  from log2floor_bounds [OF pos] have lo: "2 ^ ?e \<le> n" and hi: "n < 2 ^ (?e + 1)" by simp_all
  have e: "ratioExponent n 1 = int ?e"
    using pos by (simp add: ratioExponent_def)
  have small: "\<not> 1 * 2 ^ 1024 \<le> n"
  proof -
    have "(2::nat) ^ 53 < 2 ^ 1024" by simp
    with assms show ?thesis by simp
  qed
  have e53: "?e \<le> 53"
  proof (rule ccontr)
    assume "\<not> ?e \<le> 53"
    then have "54 \<le> ?e" by simp
    then have "(2::nat) ^ 54 \<le> 2 ^ ?e" by (rule power_increasing) simp
    with lo assms show False by simp
  qed
  show ?thesis
  proof (cases "52 \<le> ?e")
    case False
    then have "?e < 52" by simp
    have "roundDiv (n * 2 ^ (52 - ?e)) 1 = n * 2 ^ (52 - ?e)"
      using roundDiv_exact [of 1 "n * 2 ^ (52 - ?e)"] by simp
    then show ?thesis
      using False small pos
      by (simp add: doubleOfRatio_def e Let_def nat_diff_distrib' del: One_nat_def)
  next
    case True
    have pw: "2 ^ (?e - 52) dvd n"
    proof (cases "?e = 52")
      case True
      then show ?thesis by simp
    next
      case False
      with True e53 have "?e = 53" by simp
      with lo assms have "n = 2 ^ 53" by simp
      with \<open>?e = 53\<close> show ?thesis by simp
    qed
    then obtain k where k: "n = k * 2 ^ (?e - 52)" by (auto simp: dvd_def mult.commute)
    have "roundDiv n (1 * 2 ^ (?e - 52)) * 2 ^ (?e - 52) = n"
      using roundDiv_exact [of "2 ^ (?e - 52)" k] k by simp
    moreover have "\<not> 2 ^ 1024 \<le> n" using small by simp
    ultimately show ?thesis
      using True small pos
      by (simp add: doubleOfRatio_def e Let_def nat_diff_distrib' del: One_nat_def)
  qed
qed


text \<open>
  The double of some literals: the first integer that is no double, a value beyond
  the largest double, a value that rounds to 1, and a tenth.
\<close>

lemma Number_js_examples:
  "Number_js (ustr ''9007199254740993'') = Fin 9007199254740992"
  "Number_js (ustr ''9007199254740995'') = Fin 9007199254740996"
  "Number_js (ustr ''1e400'') = PosInf"
  "Number_js (ustr ''-1e400'') = NegInf"
  "Number_js (ustr ''99999999999999999999e-20'') = Fin 1"
  "Number_js (ustr ''0.1'') = Fin (3602879701896397 / 36028797018963968)"
  "Number_js (ustr '' 0x1F '') = Fin 31"
  "Number_js (ustr ''-0'') = Fin 0"
  "Number_js (ustr ''1e3'') = Fin 1000"
  "Number_js (ustr ''Infinity'') = PosInf"
  "Number_js (ustr ''12px'') = NaN"
  "Number_js [] = Fin 0"
  by (simp_all add: number_defs)

subsection \<open>The number of a field\<close>

lemma Number_js_trim: "trim s = trim t \<Longrightarrow> Number_js s = Number_js t"
  by (simp add: Number_js_def)

lemma Number_js_padded:
  assumes "list_all isWhiteSpace a" and "list_all isWhiteSpace b"
    and "s \<noteq> []" and "\<not> isWhiteSpace (hd s)" and "\<not> isWhiteSpace (last s)"
  shows "Number_js (a @ s @ b) = Number_js s"
  using trim_padded [OF assms] trim_plain [OF assms(3-5)] by (intro Number_js_trim) simp



lemma nonDecimal_digits:
  assumes "list_all isDigit s"
  shows "nonDecimal s = None"
proof (cases s)
  case Nil
  then show ?thesis by (simp add: nonDecimal_def)
next
  case (Cons z r)
  show ?thesis
  proof (cases r)
    case Nil
    with \<open>s = z # r\<close> show ?thesis by (simp add: nonDecimal_def)
  next
    case (Cons x ds)
    with \<open>s = z # r\<close> assms have "isDigit x" by simp
    then have "x \<noteq> 0x78" "x \<noteq> 0x58" "x \<noteq> 0x6F" "x \<noteq> 0x4F" "x \<noteq> 0x62" "x \<noteq> 0x42"
      by (auto simp: isDigit_unat)
    with Cons \<open>s = z # r\<close> show ?thesis by (simp add: nonDecimal_def)
  qed
qed

lemma not_Infinity: "isDigit (hd s) \<Longrightarrow> s \<noteq> ustr ''Infinity''"
  by (auto simp: ustr_def isDigit_unat)

text \<open>A string of decimal digits is the double nearest to the integer it writes.\<close>

lemma Number_js_digits:
  assumes "s \<noteq> []" "list_all isDigit s"
  shows "Number_js s = doubleOfRatio (digitsToNat 10 s) 1"
proof -
  have hs: "isDigit (hd s)" and ls: "isDigit (last s)"
    using assms by (simp_all add: list_all_iff)
  have t: "trim s = s"
    using assms(1) hs ls by (intro trim_plain) (simp_all add: isDigit_not_special)
  have nd: "nonDecimal s = None"
    using assms(2) by (rule nonDecimal_digits)
  have inf: "s \<noteq> ustr ''Infinity''"
    using hs by (rule not_Infinity)
  have sign: "hd s \<noteq> 0x2B" "hd s \<noteq> 0x2D"
    using hs by (simp_all add: isDigit_not_special)
  have tw: "takeWhile isDigit s = s" "dropWhile isDigit s = []"
    using assms(2) by (simp_all add: list_all_iff)
  have ud: "unsignedDecimal s = Some (doubleOfRatio (digitsToNat 10 s) 1)"
    using assms(1) by (simp add: unsignedDecimal_def tw exponentPart_def scale10_def)
  show ?thesis
    using assms(1) by (simp add: Number_js_def t nd strDecimal_def sign inf ud)
qed

lemma digitsToNat_zeros: "digitsToNat 10 (replicate z 0x30 @ s) = digitsToNat 10 s"
proof -
  have "foldl (\<lambda>a c. a * 10 + hexValue c) 0 (replicate z (0x30 :: 16 word)) = 0"
    by (induction z) (simp_all add: hexValue_def isDigit_def)
  then show ?thesis by (simp add: digitsToNat_def)
qed

lemma list_all_ends: "list_all P s \<Longrightarrow> s \<noteq> [] \<Longrightarrow> P (hd s) \<and> P (last s)"
  by (cases s) (auto simp: list_all_iff)

lemma zeros_showNat_digits:
  "list_all isDigit (replicate z 0x30 @ showNat n)" "replicate z 0x30 @ showNat n \<noteq> []"
proof -
  have "list_all isDigit (replicate z (0x30 :: 16 word))"
    by (simp add: list_all_iff isDigit_def)
  then show "list_all isDigit (replicate z 0x30 @ showNat n)"
    using showNat_digits [of n] by simp
  show "replicate z 0x30 @ showNat n \<noteq> []"
    using showNat_digits [of n] by simp
qed

lemma Number_js_integer:
  "Number_js (replicate z 0x30 @ showNat n) = doubleOfRatio n 1"
  using zeros_showNat_digits [of z n]
  by (simp add: Number_js_digits digitsToNat_zeros digitsToNat_showNat)

lemma Number_js_showNat:
  assumes "n \<le> 2 ^ 53"
  shows "Number_js (showNat n) = Fin (of_nat n)"
proof -
  have "doubleOfRatio n 1 = Fin (of_nat n)"
    using assms by (rule doubleOfRatio_nat)
  with Number_js_integer [of 0 n] show ?thesis by simp
qed











subsection \<open>Properties of the version calculator\<close>



text \<open>
  Claim C5. When the record set to consider is empty (no record at all, or none of
  the requested addon), \<open>getNextVersion\<close> returns \<open>null\<close> for every bump kind; it
  does not throw.
\<close>

theorem no_records_gives_null:
  assumes "filesToCheckFor tocFiles targetAddon = []"
  shows "fst (getNextVersion tocFiles targetAddon bumpType) = Inr None"
  using assms by (simp add: getNextVersion_def Let_def)

theorem no_records_gives_null_witness:
  "filesToCheckFor [] None = []
   \<and> fst (getNextVersion [] None Major) = Inr None
   \<and> filesToCheckFor [alphaToc] (Some (ustr ''Beta'')) = []
   \<and> fst (getNextVersion [alphaToc] (Some (ustr ''Beta'')) Patch) = Inr None"
proof -
  have a: "filesToCheckFor [] None = []"
    by (simp add: filesToCheckFor_def truthy_def)
  have b: "filesToCheckFor [alphaToc] (Some (ustr ''Beta'')) = []"
    by (simp add: filesToCheckFor_def truthy_def getTocFilesForAddon_def alphaToc_def ustr_def)
  from no_records_gives_null [OF a, of Major] no_records_gives_null [OF b, of Patch] a b
  show ?thesis by simp
qed

subsection \<open>Canonical versions\<close>

text \<open>
  The version \<open>M.m.p\<close> as \<open>format\<close> writes it: three decimal numbers without leading
  zeros, separated by dots, and nothing else.
\<close>

definition canonical :: "nat \<Rightarrow> nat \<Rightarrow> nat \<Rightarrow> ustring" where
  "canonical M m p = showNat M @ 0x2E # showNat m @ 0x2E # showNat p"

subsection \<open>Parsing and formatting a canonical version\<close>

lemma canonical_chars: "c \<in> set (canonical M m p) \<Longrightarrow> isDigit c \<or> c = 0x2E"
  using showNat_digits [of M] showNat_digits [of m] showNat_digits [of p]
  by (auto simp: canonical_def list_all_iff)

lemma canonical_ends:
  "canonical M m p \<noteq> []" "isDigit (hd (canonical M m p))" "isDigit (last (canonical M m p))"
  using showNat_digits [of M] showNat_digits [of p]
  by (simp_all add: canonical_def list_all_iff)

lemma showNat_no_dot: "0x2E \<notin> set (showNat n)"
  using showNat_digits [of n] isDigit_not_special(1) by (auto simp: list_all_iff)

lemma blank_no_dot: "list_all isWhiteSpace a \<Longrightarrow> 0x2E \<notin> set a"
  by (auto simp: list_all_iff isWhiteSpace_def isLineTerminator_def)

text \<open>
  The fields of a canonical version with white space around it: the white space
  stays with the first and the last field.
\<close>

lemma splitOn_padded_canonical:
  assumes "list_all isWhiteSpace a" and "list_all isWhiteSpace b"
  shows "splitOn 0x2E (a @ canonical M m p @ b) = [a @ showNat M, showNat m, showNat p @ b]"
proof -
  have 1: "0x2E \<notin> set (a @ showNat M)"
    using blank_no_dot [OF assms(1)] showNat_no_dot [of M] by simp
  have 2: "0x2E \<notin> set (showNat p @ b)"
    using blank_no_dot [OF assms(2)] showNat_no_dot [of p] by simp
  have "a @ canonical M m p @ b = (a @ showNat M) @ 0x2E # (showNat m @ 0x2E # (showNat p @ b))"
    by (simp add: canonical_def)
  then show ?thesis
    by (simp only: splitOn_append [OF 1] splitOn_append [OF showNat_no_dot] splitOn_plain [OF 2])
qed

lemma Number_js_padded_showNat:
  assumes "list_all isWhiteSpace a" and "list_all isWhiteSpace b" and "n \<le> MAX_SAFE_INTEGER"
  shows "Number_js (a @ showNat n @ b) = Fin (of_nat n)"
proof -
  from list_all_ends [of isDigit "showNat n"] showNat_digits [of n]
  have h: "isDigit (hd (showNat n))" and l: "isDigit (last (showNat n))" by blast+
  have ne: "showNat n \<noteq> []"
    using showNat_digits [of n] by simp
  have "n \<le> 2 ^ 53"
    using assms(3) by (simp add: MAX_SAFE_INTEGER_def)
  then have "Number_js (showNat n) = Fin (of_nat n)"
    by (rule Number_js_showNat)
  with Number_js_padded [OF assms(1,2) ne isDigit_not_special(5) [OF h]
      isDigit_not_special(5) [OF l]]
  show ?thesis by simp
qed

text \<open>
  \<open>parse\<close> looks at the length of the text and, beyond that, only at the trimmed
  text.
\<close>

lemma parse_canonical:
  assumes "length v \<le> MAX_LENGTH" and "trim v = canonical M m p"
    and "M \<le> MAX_SAFE_INTEGER" "m \<le> MAX_SAFE_INTEGER" "p \<le> MAX_SAFE_INTEGER"
  shows "parse v =
    Inr \<lparr>sv_major = M, sv_minor = m, sv_patch = p, prerelease = [], build = []\<rparr>"
proof -
  let ?s = "canonical M m p"
  have len: "\<not> length v > MAX_LENGTH"
    using assms(1) by simp
  have v: "hd ?s \<noteq> 0x76"
    using canonical_ends(2) [of M m p] by (simp add: isDigit_not_special)
  have plus: "\<forall>c \<in> set ?s. c \<noteq> 0x2B"
  proof
    fix c assume "c \<in> set ?s"
    then have "isDigit c \<or> c = 0x2E" by (rule canonical_chars)
    then show "c \<noteq> 0x2B" using isDigit_not_special(2) [of c] by auto
  qed
  have minus: "\<forall>c \<in> set ?s. c \<noteq> 0x2D"
  proof
    fix c assume "c \<in> set ?s"
    then have "isDigit c \<or> c = 0x2E" by (rule canonical_chars)
    then show "c \<noteq> 0x2D" using isDigit_not_special(3) [of c] by auto
  qed
  have tw: "takeWhile (\<lambda>c. c \<noteq> 0x2B) ?s = ?s" "dropWhile (\<lambda>c. c \<noteq> 0x2B) ?s = []"
    "takeWhile (\<lambda>c. c \<noteq> 0x2D) ?s = ?s" "dropWhile (\<lambda>c. c \<noteq> 0x2D) ?s = []"
    using plus minus by simp_all
  have sp: "splitOn 0x2E ?s = [showNat M, showNat m, showNat p]"
    using splitOn_padded_canonical [of "[]" "[]" M m p] by simp
  show ?thesis
    using assms(3-5) len
    by (simp add: parse_def Let_def assms(2) v tw plus minus sp
        isNumericIdentifier_showNat digitsToNat_showNat)
qed

lemma format_plain:
  "format \<lparr>sv_major = a, sv_minor = b, sv_patch = c, prerelease = [], build = []\<rparr>
     = canonical a b c"
  by (simp add: format_def canonical_def)

lemma toVersionParts_canonical:
  assumes "trim (version f) = canonical M m p"
    and "M \<le> MAX_SAFE_INTEGER" "m \<le> MAX_SAFE_INTEGER" "p \<le> MAX_SAFE_INTEGER"
  shows "major (toVersionParts f) = Fin (of_nat M)" "minor (toVersionParts f) = Fin (of_nat m)"
    "patch (toVersionParts f) = Fin (of_nat p)"
proof -
  from trim_decompose [of "version f"] assms(1) obtain a b
    where v: "version f = a @ canonical M m p @ b"
      and a: "list_all isWhiteSpace a" and b: "list_all isWhiteSpace b"
    by auto
  have n: "Number_js (a @ showNat M) = Fin (of_nat M)" "Number_js (showNat m) = Fin (of_nat m)"
    "Number_js (showNat p @ b) = Fin (of_nat p)"
    using Number_js_padded_showNat [OF a _ assms(2), of "[]"]
      Number_js_padded_showNat [of "[]" "[]", OF _ _ assms(3)]
      Number_js_padded_showNat [OF _ b assms(4), of "[]"]
    by simp_all
  show "major (toVersionParts f) = Fin (of_nat M)" "minor (toVersionParts f) = Fin (of_nat m)"
    "patch (toVersionParts f) = Fin (of_nat p)"
    by (simp_all add: toVersionParts_def v splitOn_padded_canonical [OF a b] elemAt_def
        orZero_def n)
qed

lemma highestOf_member:
  assumes "highestOf fs = Some h"
  shows "\<exists>f \<in> set fs. h = toVersionParts f"
proof (cases fs)
  case Nil
  with assms show ?thesis by (simp add: highestOf_def reduce_def)
next
  case (Cons f rest)
  have "\<forall>v \<in> set (toVersionParts f # map toVersionParts rest). properParts v"
    by (auto simp: properParts_toVersionParts)
  from foldl_pickHigher_invariant [OF this] obtain i
    where "i < length (toVersionParts f # map toVersionParts rest)"
      and "(toVersionParts f # map toVersionParts rest) ! i
        = foldl pickHigher (toVersionParts f) (map toVersionParts rest)"
    by blast
  then have "foldl pickHigher (toVersionParts f) (map toVersionParts rest)
      \<in> set (map toVersionParts (f # rest))"
    by (metis list.simps(9) nth_mem)
  moreover have "h = foldl pickHigher (toVersionParts f) (map toVersionParts rest)"
    using assms Cons by (simp add: highestOf_def reduce_def)
  ultimately show ?thesis using Cons by auto
qed

text \<open>
  Claim C4, as amended. When the version of the highest record is, apart from white
  space around it, the canonical text of \<open>M.m.p\<close> (each number at most
  \<open>Number.MAX_SAFE_INTEGER\<close>, the whole of at most 256 code units), the tuple it is
  compared by is \<open>(M, m, p)\<close> and \<open>getNextVersion\<close> yields \<open>(M+1).0.0\<close> for a major
  bump, \<open>M.(m+1).0\<close> for a minor bump and \<open>M.m.(p+1)\<close> for a patch bump. For other
  versions the tuple does not decide the result: \<open>parse\<close> reads the text again, and
  throws for \<open>01.2.3\<close> (tuple \<open>(1, 2, 3)\<close>), for \<open>1.2\<close> (tuple \<open>(1, 2, 0)\<close>) and for
  \<open>99999999999999999999e-20.5.0\<close>, whose first field rounds to 1 (tuple \<open>(1, 5, 0)\<close>,
  the highest of the set with \<open>1.0.0\<close>).
\<close>

theorem next_version_of_canonical:
  assumes "highestOf (filesToCheckFor tocFiles targetAddon) = Some h"
    and "trim (original h) = canonical M m p" and "length (original h) \<le> MAX_LENGTH"
    and "M \<le> MAX_SAFE_INTEGER" and "m \<le> MAX_SAFE_INTEGER" and "p \<le> MAX_SAFE_INTEGER"
  shows "fst (getNextVersion tocFiles targetAddon Major) = Inr (Some (canonical (M + 1) 0 0))
    \<and> fst (getNextVersion tocFiles targetAddon Minor) = Inr (Some (canonical M (m + 1) 0))
    \<and> fst (getNextVersion tocFiles targetAddon Patch) = Inr (Some (canonical M m (p + 1)))
    \<and> major h = Fin (of_nat M) \<and> minor h = Fin (of_nat m) \<and> patch h = Fin (of_nat p)"
proof -
  have ne: "filesToCheckFor tocFiles targetAddon \<noteq> []"
    using assms(1) by (auto simp: highestOf_def reduce_def)
  then have ne': "tocFiles \<noteq> []"
    by (auto simp: filesToCheckFor_def getTocFilesForAddon_def split: if_splits)
  have p: "parse (original h) =
      Inr \<lparr>sv_major = M, sv_minor = m, sv_patch = p, prerelease = [], build = []\<rparr>"
    using assms(3,2,4-6) by (rule parse_canonical)
  have nv: "fst (getNextVersion tocFiles targetAddon b) =
      Inr (Some (format (increment
        \<lparr>sv_major = M, sv_minor = m, sv_patch = p, prerelease = [], build = []\<rparr> b)))" for b
    using ne ne' assms(1) p by (simp add: getNextVersion_def Let_def)
  from highestOf_member [OF assms(1)] obtain f where "h = toVersionParts f"
    by blast
  moreover from this have "trim (version f) = canonical M m p"
    using assms(2) by (simp add: toVersionParts_def Let_def)
  ultimately have tuple: "major h = Fin (of_nat M)" "minor h = Fin (of_nat m)"
    "patch h = Fin (of_nat p)"
    using toVersionParts_canonical [of f M m p] assms(4-6) by simp_all
  show ?thesis
    using tuple by (simp add: nv increment_def format_plain)
qed

theorem next_version_of_canonical_witness:
  "highestOf (filesToCheckFor [tocOf ''a.toc'' ''A'' ''1.2.3'', tocOf ''b.toc'' ''A'' ''1.10.0 ''] None)
     = Some (toVersionParts (tocOf ''b.toc'' ''A'' ''1.10.0 ''))
   \<and> trim (original (toVersionParts (tocOf ''b.toc'' ''A'' ''1.10.0 ''))) = canonical 1 10 0
   \<and> length (original (toVersionParts (tocOf ''b.toc'' ''A'' ''1.10.0 ''))) \<le> MAX_LENGTH
   \<and> 1 \<le> MAX_SAFE_INTEGER \<and> 10 \<le> MAX_SAFE_INTEGER \<and> 0 \<le> MAX_SAFE_INTEGER
   \<and> fst (getNextVersion [tocOf ''a.toc'' ''A'' ''1.2.3'', tocOf ''b.toc'' ''A'' ''1.10.0 ''] None Major)
       = Inr (Some (ustr ''2.0.0''))
   \<and> fst (getNextVersion [tocOf ''a.toc'' ''A'' ''1.2.3'', tocOf ''b.toc'' ''A'' ''1.10.0 ''] None Minor)
       = Inr (Some (ustr ''1.11.0''))
   \<and> fst (getNextVersion [tocOf ''a.toc'' ''A'' ''1.2.3'', tocOf ''b.toc'' ''A'' ''1.10.0 ''] None Patch)
       = Inr (Some (ustr ''1.10.1''))"
proof -
  have h: "highestOf (filesToCheckFor [tocOf ''a.toc'' ''A'' ''1.2.3'', tocOf ''b.toc'' ''A'' ''1.10.0 ''] None)
     = Some (toVersionParts (tocOf ''b.toc'' ''A'' ''1.10.0 ''))"
    by (simp add: tocOf_def nextVersion_defs number_defs)
  have c: "trim (original (toVersionParts (tocOf ''b.toc'' ''A'' ''1.10.0 ''))) = canonical 1 10 0"
    by (simp add: tocOf_def toVersionParts_def Let_def canonical_def showNat.simps ustr_def
        trim_def isWhiteSpace_def isLineTerminator_def)
  have l: "length (original (toVersionParts (tocOf ''b.toc'' ''A'' ''1.10.0 ''))) \<le> MAX_LENGTH"
    by (simp add: tocOf_def toVersionParts_def Let_def ustr_def MAX_LENGTH_def)
  have s: "(1::nat) \<le> MAX_SAFE_INTEGER" "(10::nat) \<le> MAX_SAFE_INTEGER" "(0::nat) \<le> MAX_SAFE_INTEGER"
    by (simp_all add: MAX_SAFE_INTEGER_def)
  have r: "canonical (1 + 1) 0 0 = ustr ''2.0.0''" "canonical 1 (10 + 1) 0 = ustr ''1.11.0''"
    "canonical 1 10 (0 + 1) = ustr ''1.10.1''"
    by (simp_all add: canonical_def showNat.simps ustr_def)
  note t = next_version_of_canonical [OF h c l s, unfolded r]
  from t h c l s show ?thesis by blast
qed

theorem next_version_throws_counterexample:
  "map_option tupleOf (highestOf [tocOf ''a.toc'' ''A'' ''01.2.3'']) = Some [Fin 1, Fin 2, Fin 3]
   \<and> fst (getNextVersion [tocOf ''a.toc'' ''A'' ''01.2.3''] None Patch)
       = Inl (SemverTypeError (ustr ''01.2.3''))
   \<and> fst (getNextVersion [tocOf ''a.toc'' ''A'' ''01.2.3''] None Patch)
       \<noteq> Inr (Some (ustr ''1.2.4''))
   \<and> map_option tupleOf (highestOf [tocOf ''a.toc'' ''A'' ''1.2'']) = Some [Fin 1, Fin 2, Fin 0]
   \<and> fst (getNextVersion [tocOf ''a.toc'' ''A'' ''1.2''] None Patch)
       = Inl (SemverTypeError (ustr ''1.2''))
   \<and> fst (getNextVersion [tocOf ''a.toc'' ''A'' ''1.2''] None Patch)
       \<noteq> Inr (Some (ustr ''1.2.1''))
   \<and> map_option tupleOf
        (highestOf [tocOf ''a.toc'' ''A'' ''1.0.0'',
                    tocOf ''b.toc'' ''A'' ''99999999999999999999e-20.5.0''])
       = Some [Fin 1, Fin 5, Fin 0]
   \<and> fst (getNextVersion [tocOf ''a.toc'' ''A'' ''1.0.0'',
                           tocOf ''b.toc'' ''A'' ''99999999999999999999e-20.5.0''] None Patch)
       = Inl (SemverTypeError (ustr ''99999999999999999999e-20.5.0''))"
  by (simp add: tocOf_def tupleOf_def nextVersion_defs semver_defs number_defs)

section \<open>version-bumper.ts and the git manager: acting on the world\<close>

text \<open>\<open>VersionBumpOptions\<close> of \<open>types.ts\<close>.\<close>

record VersionBumpOptions =
  newVersion :: ustring
  dryRun :: bool
  targetAddon :: "ustring option"
  bumpType :: BumpType
  commitMessage :: ustring
  verbose :: bool

definition say :: "Event \<Rightarrow> World \<Rightarrow> World" where
  "say e w = w\<lparr>console := console w @ [e]\<rparr>"

definition sayAll :: "Event list \<Rightarrow> World \<Rightarrow> World" where
  "sayAll es w = w\<lparr>console := console w @ es\<rparr>"

text \<open>
  \<open>Deno.writeTextFileSync\<close>: throws for a path that cannot be written, and
  otherwise the file holds the new text.
\<close>

definition writeTextFileSync :: "ustring \<Rightarrow> ustring \<Rightarrow> World \<Rightarrow> Exn option \<times> World" where
  "writeTextFileSync p newText w =
     (if readOnly w p then (Some IOError, w)
      else (None, w\<lparr>files := (files w)(p \<mapsto> newText)\<rparr>))"

text \<open>
  \<open>s.replace(pattern, "")\<close> for a pattern given as a string: the first occurrence
  is removed.
\<close>

fun removeFirst :: "ustring \<Rightarrow> ustring \<Rightarrow> ustring" where
  "removeFirst pat [] = []"
| "removeFirst pat (c # cs) =
     (if take (length pat) (c # cs) = pat then drop (length pat) (c # cs)
      else c # removeFirst pat cs)"

text \<open>
  The loop of \<open>updateFiles\<close>: in a dry run a line per file and no write; otherwise
  the rewritten content is written to the path of the record, and a failed write is
  reported and the loop goes on.
\<close>

fun updateEach :: "VersionBumpOptions \<Rightarrow> TocFile list \<Rightarrow> World \<Rightarrow> World" where
  "updateEach options [] w = w"
| "updateEach options (file # others) w =
     (let newContent = updateVersionInContent (content file) (newVersion options);
          relativePath = removeFirst (ustr ''./addons/'') (path file);
          w' = (if dryRun options
                then say (Log (WouldUpdate relativePath (version file) (newVersion options))) w
                else (case writeTextFileSync (path file) newContent w of
                        (None, w1) \<Rightarrow>
                          say (Log (Updated relativePath (version file) (newVersion options))) w1
                      | (Some e, w1) \<Rightarrow> say (Error (FailedToUpdate relativePath e)) w1))
      in updateEach options others w')"

definition updateFiles :: "TocFile list \<Rightarrow> VersionBumpOptions \<Rightarrow> World \<Rightarrow> World" where
  "updateFiles fs options w =
     updateEach options fs (if dryRun options then say (Log DryRunMode) w else w)"

text \<open>
  \<open>new Deno.Command(program, {args, cwd}).output()\<close>: the process is run, which the
  trace records with its outcome; a process that cannot be started throws.
\<close>

definition commandOutput ::
  "ustring \<Rightarrow> ustring list \<Rightarrow> ustring \<Rightarrow> World \<Rightarrow> (Exn + Output) \<times> World" where
  "commandOutput prog arguments workingDir w =
     (let r = spawn w (executed w) prog arguments workingDir;
          w' = w\<lparr>executed := executed w
                  @ [\<lparr>program = prog, args = arguments, dir = workingDir, outcome = r\<rparr>]\<rparr>
      in case r of None \<Rightarrow> (Inl IOError, w') | Some out \<Rightarrow> (Inr out, w'))"

definition startsWith :: "ustring \<Rightarrow> ustring \<Rightarrow> bool" where
  "startsWith s p \<longleftrightarrow> take (length p) s = p"

fun findIndex :: "('a \<Rightarrow> bool) \<Rightarrow> 'a list \<Rightarrow> nat option" where
  "findIndex P [] = None"
| "findIndex P (x # xs) = (if P x then Some 0 else map_option Suc (findIndex P xs))"

text \<open>
  \<open>runCommandInDir\<close>: a \<open>git commit\<close> command is run with the words after \<open>-m\<close>
  joined again as one argument, any other command with its words as arguments. A
  completion code other than 0 throws \<open>Command failed\<close>; otherwise the output of the
  command is returned.
\<close>

definition checkCode :: "ustring \<Rightarrow> (Exn + Output) \<times> World \<Rightarrow> (Exn + ustring) \<times> World" where
  "checkCode command r =
     (case r of
        (Inl e, w) \<Rightarrow> (Inl e, w)
      | (Inr out, w) \<Rightarrow>
          if code out \<noteq> 0 then (Inl (CommandFailed command (stderr out)), w)
          else (Inr (stdout out), w))"

definition runCommandInDir :: "ustring \<Rightarrow> ustring \<Rightarrow> World \<Rightarrow> (Exn + ustring) \<times> World" where
  "runCommandInDir command workingDir w =
     (let parts = splitOn 0x20 command;
          messageIndex = findIndex (\<lambda>a. a = ustr ''-m'') parts
      in if startsWith command (ustr ''git commit'')
            \<and> messageIndex \<noteq> None \<and> the messageIndex + 1 < length parts
         then checkCode command
                (commandOutput (ustr ''git'')
                   [ustr ''commit'', ustr ''-m'',
                    joinWith 0x20 (drop (the messageIndex + 1) parts)] workingDir w)
         else (case parts of
                 [] \<Rightarrow> (Inl IOError, w)
               | c # arguments \<Rightarrow> checkCode command (commandOutput c arguments workingDir w)))"

text \<open>
  The steps of a \<open>try\<close> block in sequence: a step that throws ends the block, and
  the steps after it are not run.
\<close>

definition andThen ::
  "(Exn + 'a) \<times> World \<Rightarrow> ('a \<Rightarrow> World \<Rightarrow> (Exn + 'b) \<times> World) \<Rightarrow> (Exn + 'b) \<times> World" where
  "andThen r f = (case r of (Inl e, w) \<Rightarrow> (Inl e, w) | (Inr x, w) \<Rightarrow> f x w)"

definition bumpMessage :: "ustring option \<Rightarrow> ustring \<Rightarrow> ustring" where
  "bumpMessage addon v =
     (if truthy addon then ustr ''Bump '' @ the addon @ ustr '' version to '' @ v
      else ustr ''Bump version to '' @ v)"

definition messageOr :: "ustring option \<Rightarrow> ustring option \<Rightarrow> ustring \<Rightarrow> ustring" where
  "messageOr message addon v = (if truthy message then the message else bumpMessage addon v)"

definition workingDirOf :: "Config \<Rightarrow> ustring option \<Rightarrow> World \<Rightarrow> ustring" where
  "workingDirOf config addon w =
     (if truthy addon then addonsDirectory config @ ustr ''/'' @ the addon else cwd w)"

text \<open>
  \<open>createGitTag(version, commitMessage, targetAddon, dryRun)\<close>. A dry run prints
  three lines and returns. Otherwise the status is asked; when it is not blank the
  changes are added and committed; the tag is created; branch and tag are pushed.
  Whatever is thrown on the way is caught and printed as one line.
\<close>

definition gitSteps ::
  "Config \<Rightarrow> ustring \<Rightarrow> ustring option \<Rightarrow> ustring option \<Rightarrow> World \<Rightarrow> (Exn + unit) \<times> World" where
  "gitSteps config v message addon w =
     (let workingDir = workingDirOf config addon w
      in andThen (runCommandInDir (ustr ''git status --porcelain'') workingDir w) (\<lambda>status w1.
         andThen (if trim status \<noteq> []
                  then andThen (runCommandInDir (ustr ''git add .'') workingDir
                                  (say (Log CommittingChanges) w1)) (\<lambda>_ w2.
                       runCommandInDir (ustr ''git commit -m '' @ messageOr message addon v)
                         workingDir w2)
                  else (Inr [], w1)) (\<lambda>_ w3.
         andThen (runCommandInDir (ustr ''git tag '' @ v) workingDir
                    (say (Log (CreatingTag v)) w3)) (\<lambda>_ w4.
         andThen (runCommandInDir (ustr ''git push origin HEAD '' @ v) workingDir
                    (say (Log PushingChangesAndTag) w4)) (\<lambda>_ w5.
         (Inr (), say (Log (ReleaseWillBeCreated v)) (say (Log VersionBumpCompleted) w5)))))))"

definition createGitTag ::
  "Config \<Rightarrow> ustring \<Rightarrow> ustring option \<Rightarrow> ustring option \<Rightarrow> bool \<Rightarrow> World \<Rightarrow> World" where
  "createGitTag config v message addon dry w =
     (if dry
      then sayAll [Log (WouldCreateTag v),
                   Log (WouldCommitWithMessage (messageOr message addon v)),
                   Log WouldPushChangesAndTag] w
      else (case gitSteps config v message addon w of
              (Inr _, w') \<Rightarrow> w'
            | (Inl e, w') \<Rightarrow> say (Error (GitOperationsFailed e)) w'))"

text \<open>
  The \<open>Map\<close> from addon name to records that \<open>bumpVersion\<close> builds: a record is pushed
  to the entry of its addon, and a new entry is added at the end.
\<close>

fun pushTo :: "ustring \<Rightarrow> TocFile \<Rightarrow> (ustring \<times> TocFile list) list \<Rightarrow> (ustring \<times> TocFile list) list" where
  "pushTo k f [] = [(k, [f])]"
| "pushTo k f ((k', fs) # others) =
     (if k' = k then (k', fs @ [f]) # others else (k', fs) # pushTo k f others)"

definition addonGroups :: "TocFile list \<Rightarrow> (ustring \<times> TocFile list) list" where
  "addonGroups tocFiles = foldl (\<lambda>groups f. pushTo (addonName f) f groups) [] tocFiles"

text \<open>The first loop of a bump of all addons to one version: every group is updated.\<close>

fun updateGroups :: "VersionBumpOptions \<Rightarrow> (ustring \<times> TocFile list) list \<Rightarrow> World \<Rightarrow> World" where
  "updateGroups options [] w = w"
| "updateGroups options ((a, fs) # others) w =
     updateGroups options others (updateFiles fs options (say (Log (AddonHeader a)) w))"

text \<open>The second loop: a tag for every group.\<close>

fun tagGroups :: "Config \<Rightarrow> VersionBumpOptions \<Rightarrow> (ustring \<times> TocFile list) list \<Rightarrow> World \<Rightarrow> World" where
  "tagGroups config options [] w = w"
| "tagGroups config options ((a, fs) # others) w =
     tagGroups config options others
       (createGitTag config (newVersion options)
          (Some (ustr ''Bump '' @ a @ ustr '' version to '' @ newVersion options))
          (Some a) (dryRun options)
          (say (Log (if dryRun options then WouldCreateTagFor a else CreatingTagFor a)) w))"

text \<open>
  The loops of the bump of every addon to its own next version. \<open>getNextVersion\<close>
  may throw, which ends \<open>bumpVersion\<close>; a group without next version is skipped.
\<close>

fun updateGroupsAuto ::
  "TocFile list \<Rightarrow> VersionBumpOptions \<Rightarrow> (ustring \<times> TocFile list) list \<Rightarrow> World
     \<Rightarrow> Exn option \<times> World" where
  "updateGroupsAuto tocFiles options [] w = (None, w)"
| "updateGroupsAuto tocFiles options ((a, fs) # others) w =
     (case getNextVersion tocFiles (Some a) (bumpType options) of
        (Inl e, printed) \<Rightarrow> (Some e, sayAll printed w)
      | (Inr addonNextVersion, printed) \<Rightarrow>
          updateGroupsAuto tocFiles options others
            (if truthy addonNextVersion
             then updateFiles fs (options\<lparr>newVersion := the addonNextVersion\<rparr>)
                    (say (Log (AddonHeader a)) (sayAll printed w))
             else sayAll printed w))"

fun tagGroupsAuto ::
  "Config \<Rightarrow> TocFile list \<Rightarrow> VersionBumpOptions \<Rightarrow> (ustring \<times> TocFile list) list \<Rightarrow> World
     \<Rightarrow> Exn option \<times> World" where
  "tagGroupsAuto config tocFiles options [] w = (None, w)"
| "tagGroupsAuto config tocFiles options ((a, fs) # others) w =
     (case getNextVersion tocFiles (Some a) (bumpType options) of
        (Inl e, printed) \<Rightarrow> (Some e, sayAll printed w)
      | (Inr addonNextVersion, printed) \<Rightarrow>
          tagGroupsAuto config tocFiles options others
            (if truthy addonNextVersion
             then createGitTag config (the addonNextVersion)
                    (Some (ustr ''Bump '' @ a @ ustr '' version to '' @ the addonNextVersion))
                    (Some a) (dryRun options)
                    (say (Log (if dryRun options then WouldCreateTagFor a else CreatingTagFor a))
                       (sayAll printed w))
             else sayAll printed w))"

text \<open>
  \<open>bumpVersion(options)\<close> over the catalog \<open>tocFiles\<close>: the error it ends with, if
  any, and the world after it.
\<close>

definition bumpVersion ::
  "Config \<Rightarrow> TocFile list \<Rightarrow> VersionBumpOptions \<Rightarrow> World \<Rightarrow> Exn option \<times> World" where
  "bumpVersion config tocFiles options w =
     (if truthy (targetAddon options) then
        (let filesToUpdate = getTocFilesForAddon tocFiles (the (targetAddon options))
         in if length filesToUpdate = 0
            then (None, say (Error (NoTocFilesFoundForAddon (targetAddon options))) w)
            else (None,
                  createGitTag config (newVersion options) (Some (commitMessage options))
                    (targetAddon options) (dryRun options)
                    (updateFiles filesToUpdate options
                       (say (Log Separator)
                          (say (Log (BumpingAddonTo (the (targetAddon options)) (newVersion options)))
                             w)))))
      else
        (let groups = addonGroups tocFiles
         in if newVersion options \<noteq> [] then
              (None,
               tagGroups config options groups
                 (say (Log (if dryRun options then WouldCreateTagsForAll else CreatingTagsForAll))
                    (updateGroups options groups
                       (say (Log Separator) (say (Log (BumpingAllTo (newVersion options))) w)))))
            else
              (case updateGroupsAuto tocFiles options groups
                      (say (Log Separator) (say (Log BumpingAllIndividually) w)) of
                 (Some e, w1) \<Rightarrow> (Some e, w1)
               | (None, w1) \<Rightarrow>
                   tagGroupsAuto config tocFiles options groups
                     (say (Log (if dryRun options then WouldCreateTagsForAll
                                else CreatingTagsForAll)) w1))))"


section \<open>The command line\<close>

text \<open>
  \<open>new VersionBumper(verbose)\<close>: the configuration is loaded (the defaults stand in
  for a missing or unreadable file) and the catalog is scanned; the object keeps
  both. An unreadable addons directory ends the process.
\<close>

record Bumper =
  configOf :: Config
  tocFilesOf :: "TocFile list"

definition loadConfig :: "World \<Rightarrow> bool \<Rightarrow> Config \<times> Event list" where
  "loadConfig w isVerbose =
     (case configFile w of
        Some config \<Rightarrow> (config, if isVerbose then [Log LoadedConfiguration] else [])
      | None \<Rightarrow>
          (\<lparr>whitelistedAddons = [], addonsDirectory = ustr ''./addons''\<rparr>,
           [Warn (CouldNotLoadConfig IOError)]))"

definition newVersionBumper :: "bool \<Rightarrow> World \<Rightarrow> Bumper Result \<times> World" where
  "newVersionBumper isVerbose w =
     (let (config, printed) = loadConfig w isVerbose;
          (loaded, printed') = loadAllTocFiles w config isVerbose;
          w' = sayAll (printed @ printed') w
      in case loaded of
           Exit n \<Rightarrow> (Exit n, w')
         | Ok tocFiles \<Rightarrow> (Ok \<lparr>configOf = config, tocFilesOf = tocFiles\<rparr>, w'))"

text \<open>\<^verbatim>\<open>/^\d+\.\d+\.\d+$/.test(s)\<close>: three non-empty runs of digits, separated by dots.\<close>

definition isVersionArg :: "ustring \<Rightarrow> bool" where
  "isVersionArg s \<longleftrightarrow>
     (case splitOn 0x2E s of
        [a, b, c] \<Rightarrow> a \<noteq> [] \<and> b \<noteq> [] \<and> c \<noteq> []
                      \<and> list_all isDigit a \<and> list_all isDigit b \<and> list_all isDigit c
      | _ \<Rightarrow> False)"

text \<open>
  \<open>parseBumpArgs(args)\<close> over the catalog of the bumper: the options, or the error
  thrown, and the lines printed. \<open>Examples\<close> stands for the four lines of examples.
\<close>

definition autoVersion ::
  "TocFile list \<Rightarrow> ustring option \<Rightarrow> BumpType \<Rightarrow> Event \<Rightarrow> (Exn + ustring) \<times> Event list" where
  "autoVersion tocFiles addon b firstLine =
     (case getNextVersion tocFiles addon b of
        (Inl e, printed) \<Rightarrow> (Inl e, firstLine # printed)
      | (Inr nextVersion, printed) \<Rightarrow>
          if \<not> truthy nextVersion
          then (Inl CouldNotDetermineVersion, firstLine # printed @ [Error CouldNotDetermine])
          else (Inr (the nextVersion),
                firstLine # printed @ [Log (AutoIncrementingTo (the nextVersion))]))"

definition parseBumpArgs ::
  "TocFile list \<Rightarrow> ustring list \<Rightarrow> (Exn + VersionBumpOptions) \<times> Event list" where
  "parseBumpArgs tocFiles argv =
     (let b = (if ustr ''--major'' \<in> set argv then Major
               else if ustr ''--minor'' \<in> set argv then Minor else Patch);
          finish = (\<lambda>v addon.
            \<lparr>newVersion = (if v = ustr ''auto'' then [] else v),
             dryRun = (ustr ''--dry'' \<in> set argv),
             targetAddon = addon,
             bumpType = b,
             commitMessage = bumpMessage addon v,
             verbose = (ustr ''--verbose'' \<in> set argv)\<rparr>)
      in case argv of
           [] \<Rightarrow>
             (case autoVersion tocFiles None b (Log NoVersionProvided) of
                (Inl e, printed) \<Rightarrow> (Inl e, printed)
              | (Inr v, printed) \<Rightarrow> (Inr (finish v None), printed))
         | first # rest \<Rightarrow>
             if isVersionArg first
             then (Inr (finish first
                          (if truthy (elemAt argv 1) \<and> \<not> startsWith (the (elemAt argv 1)) (ustr ''--'')
                           then elemAt argv 1 else None)), [])
             else if first = ustr ''all''
             then (Inr (finish (ustr ''auto'') None), [Log BumpingAllToIndividual])
             else if startsWith first (ustr ''--'')
             then (Inl InvalidBumpArguments, [Error NoAddonSpecified, Log Examples])
             else if length argv \<ge> 2 \<and> isVersionArg (argv ! 1)
             then (Inr (finish (argv ! 1) (Some first)), [])
             else (case autoVersion tocFiles (Some first) b (Log NoVersionForAddon) of
                     (Inl e, printed) \<Rightarrow> (Inl e, printed)
                   | (Inr v, printed) \<Rightarrow> (Inr (finish v (Some first)), printed)))"

text \<open>
  \<open>run(args)\<close>. The commands that only print are kept as one line each, with what
  they print from. An error thrown under \<open>bump\<close> is printed and the process exits
  with code 1; an unknown command is printed as an error and \<open>run\<close> returns.
\<close>

definition run :: "Bumper \<Rightarrow> ustring list \<Rightarrow> World \<Rightarrow> unit Result \<times> World" where
  "run bumper argv w =
     (case argv of
        [] \<Rightarrow> (Ok (), say (Log HelpText) w)
      | command # rest \<Rightarrow>
          if command = ustr ''show''
          then (Ok (), say (Log (CurrentVersions (elemAt argv 1) (tocFilesOf bumper))) w)
          else if command = ustr ''list''
          then (Ok (), say (Log (AvailableAddons (tocFilesOf bumper))) w)
          else if command = ustr ''whitelist''
          then (Ok (), say (Log (Whitelist (configOf bumper))) w)
          else if command = ustr ''config''
          then (Ok (), say (Log (Configuration (configOf bumper))) w)
          else if command = ustr ''bump''
          then (case parseBumpArgs (tocFilesOf bumper) rest of
                  (Inl e, printed) \<Rightarrow> (Exit 1, say (Error (ErrorMessage e)) (sayAll printed w))
                | (Inr options, printed) \<Rightarrow>
                    (case (if verbose options then newVersionBumper True (sayAll printed w)
                           else (Ok bumper, sayAll printed w)) of
                       (Exit n, w1) \<Rightarrow> (Exit n, w1)
                     | (Ok bumper', w1) \<Rightarrow>
                         (case bumpVersion (configOf bumper') (tocFilesOf bumper') options w1 of
                            (Some e, w2) \<Rightarrow> (Exit 1, say (Error (ErrorMessage e)) w2)
                          | (None, w2) \<Rightarrow> (Ok (), w2))))
          else (Ok (), say (Error UnknownCommand) w))"

text \<open>
  \<open>main\<close>: the exit code of the process (0 when \<open>main\<close> returns) and the world it
  leaves.
\<close>

definition main :: "ustring list \<Rightarrow> World \<Rightarrow> nat \<times> World" where
  "main argv w =
     (case newVersionBumper (ustr ''--verbose'' \<in> set argv) w of
        (Exit n, w1) \<Rightarrow> (n, w1)
      | (Ok bumper, w1) \<Rightarrow>
          (case run bumper argv w1 of
             (Exit n, w2) \<Rightarrow> (n, w2)
           | (Ok _, w2) \<Rightarrow> (0, w2)))"

section \<open>The specification's view of the release steps and of the commands\<close>




text \<open>A world in which every command succeeds and the working tree has a change.\<close>

definition okWorld :: World where
  "okWorld =
     sampleWorld\<lparr>spawn := (\<lambda>h c a d. Some \<lparr>code = 0, stdout = ustr '' M Alpha.toc'', stderr = []\<rparr>)\<rparr>"

text \<open>The top-level commands that \<open>run\<close> knows.\<close>

definition knownCommands :: "ustring list" where
  "knownCommands = [ustr ''show'', ustr ''list'', ustr ''whitelist'', ustr ''config'', ustr ''bump'']"

section \<open>Properties of the release recorder and of the command line\<close>

lemmas git_defs =
  createGitTag_def gitSteps_def andThen_def runCommandInDir_def checkCode_def commandOutput_def
  startsWith_def workingDirOf_def messageOr_def bumpMessage_def truthy_def say_def sayAll_def
  trim_def isWhiteSpace_def isLineTerminator_def ustr_def Let_def

text \<open>
  The commands of a real run in \<open>okWorld\<close>, in the order of their execution: status,
  add, commit, tag, push.
\<close>

lemma real_run_commands:
  "map (\<lambda>s. (program s, args s))
     (executed (createGitTag sampleConfig (ustr ''1.2.4'')
        (Some (ustr ''Bump Alpha version to 1.2.4'')) (Some (ustr ''Alpha'')) False okWorld))
    = [(ustr ''git'', [ustr ''status'', ustr ''--porcelain'']),
       (ustr ''git'', [ustr ''add'', ustr ''.'']),
       (ustr ''git'', [ustr ''commit'', ustr ''-m'', ustr ''Bump Alpha version to 1.2.4'']),
       (ustr ''git'', [ustr ''tag'', ustr ''1.2.4'']),
       (ustr ''git'', [ustr ''push'', ustr ''origin'', ustr ''HEAD'', ustr ''1.2.4''])]"
  by (simp add: okWorld_def sampleWorld_def sampleConfig_def git_defs)



lemma sampleWorld_loads:
  "loadAllTocFiles sampleWorld sampleConfig False = (Ok [alphaToc], [])"
  by code_simp

text \<open>
  Claim C7, as amended. When the first argument is none of the known commands,
  \<open>run\<close> prints the error line about the unknown command and returns normally: it
  changes nothing else and does not exit. The exit code of the program is then 0,
  unless the addons directory could not be read when the program started, which
  exits with 1 before the command is looked at.
\<close>

theorem unknown_command_reported_and_returns:
  assumes "argv \<noteq> []" and "hd argv \<notin> set knownCommands"
  shows "run bumper argv w = (Ok (), say (Error UnknownCommand) w)
    \<and> fst (main argv w) =
        (if dirs w (addonsDirectory (fst (loadConfig w (ustr ''--verbose'' \<in> set argv)))) = None
         then 1 else 0)"
proof -
  from assms obtain command rest where argv: "argv = command # rest"
    by (cases argv) auto
  with assms(2) have no: "command \<noteq> ustr ''show''" "command \<noteq> ustr ''list''"
    "command \<noteq> ustr ''whitelist''" "command \<noteq> ustr ''config''" "command \<noteq> ustr ''bump''"
    by (auto simp: knownCommands_def)
  have r: "run b argv v = (Ok (), say (Error UnknownCommand) v)" for b v
    using no by (simp add: run_def argv)
  have m: "fst (main argv w) =
        (if dirs w (addonsDirectory (fst (loadConfig w (ustr ''--verbose'' \<in> set argv)))) = None
         then 1 else 0)"
    by (auto simp: main_def newVersionBumper_def loadAllTocFiles_def r Let_def
        split: prod.splits option.splits Result.splits)
  from r m show ?thesis by simp
qed

theorem unknown_command_reported_and_returns_witness:
  "[ustr ''frobnicate''] \<noteq> [] \<and> hd [ustr ''frobnicate''] \<notin> set knownCommands
   \<and> run \<lparr>configOf = sampleConfig, tocFilesOf = [alphaToc]\<rparr> [ustr ''frobnicate''] sampleWorld
       = (Ok (), say (Error UnknownCommand) sampleWorld)
   \<and> fst (main [ustr ''frobnicate''] sampleWorld) = 0"
proof -
  have a: "[ustr ''frobnicate''] \<noteq> []" by simp
  have b: "hd [ustr ''frobnicate''] \<notin> set knownCommands"
    by (simp add: knownCommands_def ustr_def)
  have d: "dirs sampleWorld (addonsDirectory (fst (loadConfig sampleWorld
      (ustr ''--verbose'' \<in> set [ustr ''frobnicate''])))) \<noteq> None"
    by (simp add: loadConfig_def sampleWorld_def sampleConfig_def ustr_def)
  from unknown_command_reported_and_returns [OF a b,
      of "\<lparr>configOf = sampleConfig, tocFilesOf = [alphaToc]\<rparr>" sampleWorld] a b d
  show ?thesis by simp
qed

theorem unknown_command_exits_zero_counterexample:
  "fst (main [ustr ''frobnicate''] sampleWorld) = 0
   \<and> console (snd (main [ustr ''frobnicate''] sampleWorld)) = [Error UnknownCommand]
   \<and> fst (main [ustr ''frobnicate''] sampleWorld) \<noteq> 1"
proof -
  have c: "loadConfig sampleWorld (ustr ''--verbose'' \<in> set [ustr ''frobnicate'']) = (sampleConfig, [])"
    by (simp add: loadConfig_def sampleWorld_def ustr_def)
  have n: "newVersionBumper (ustr ''--verbose'' \<in> set [ustr ''frobnicate'']) sampleWorld
      = (Ok \<lparr>configOf = sampleConfig, tocFilesOf = [alphaToc]\<rparr>, sampleWorld)"
    unfolding newVersionBumper_def c
    by (simp add: sampleWorld_loads sayAll_def ustr_def)
  have r: "run \<lparr>configOf = sampleConfig, tocFilesOf = [alphaToc]\<rparr> [ustr ''frobnicate''] sampleWorld
      = (Ok (), say (Error UnknownCommand) sampleWorld)"
    by (simp add: run_def ustr_def)
  show ?thesis
    unfolding main_def n using r by (simp add: say_def sampleWorld_def)
qed

end
